theory Spec2Isabelle
  imports Complex_Main "HOL-Library.Product_Lexorder" "HOL-Library.Log_Nat"
begin

section \<open>The PadGuide monster database and nickname index (padguide2.py)\<close>

text \<open>
  A shallow embedding of the monster database of \<^verbatim>\<open>src/padguide2/padguide2.py\<close>:
  the record store's \<^verbatim>\<open>_load\<close>, the derived stat score of \<^verbatim>\<open>PgMonster\<close>,
  \<^verbatim>\<open>MonsterGroup\<close>, the basename of \<^verbatim>\<open>NamedMonsterGroup\<close>, and the nickname
  index \<^verbatim>\<open>MonsterIndex\<close> with its query resolver \<^verbatim>\<open>find_monster\<close>.

  Python exceptions are values of \<open>py_error\<close>; a function that can raise returns
  \<open>py_error + 'a\<close>, with \<open>Inl\<close> for the exception.
\<close>

datatype py_error = ValueError | KeyError | RecursionError | OverflowError | ZeroDivisionError

subsection \<open>Python dictionaries\<close>

text \<open>
  A \<^verbatim>\<open>dict\<close> keeps its keys in the order of their first insertion; assigning to a key
  that is present replaces the value where it stands. It is modelled by an association
  list that \<open>dict_set\<close> keeps free of repeated keys.
\<close>

type_synonym ('k, 'v) dict = "('k \<times> 'v) list"

fun dict_set :: "('k, 'v) dict \<Rightarrow> 'k \<Rightarrow> 'v \<Rightarrow> ('k, 'v) dict" where
  "dict_set [] k v = [(k, v)]"
| "dict_set ((k', v') # d) k v =
     (if k' = k then (k, v) # d else (k', v') # dict_set d k v)"

definition dict_get :: "('k, 'v) dict \<Rightarrow> 'k \<Rightarrow> 'v option" where
  "dict_get d k = map_of d k"

definition dict_keys :: "('k, 'v) dict \<Rightarrow> 'k list" where
  "dict_keys d = map fst d"

definition dict_values :: "('k, 'v) dict \<Rightarrow> 'v list" where
  "dict_values d = map snd d"

subsection \<open>The record store: \<^verbatim>\<open>PgRawDatabase._load\<close>\<close>

text \<open>
  One constructor per \<^verbatim>\<open>PgItem\<close> subclass that the database loads. Each carries the
  fields that its \<^verbatim>\<open>key()\<close> and \<^verbatim>\<open>deleted()\<close> read, the key first.
\<close>

datatype pg_item =
    PgAttribute int
  | PgAwakening int string
  | PgDungeon int
  | PgDungeonMonsterDrop int
  | PgDungeonMonster int
  | PgEvolution int int int
  | PgEvolutionMaterial int
  | PgMonster int
  | PgMonsterAddInfo int
  | PgMonsterInfo int
  | PgMonsterPrice int
  | PgSeries int string
  | PgSkillLeaderData int
  | PgSkill int
  | PgSkillRotation int string
  | PgSkillRotationDated int
  | PgType int

fun key :: "pg_item \<Rightarrow> int" where
  "key (PgAttribute ta_seq) = ta_seq"
| "key (PgAwakening tma_seq deleted_yn) = tma_seq"
| "key (PgDungeon dungeon_seq) = dungeon_seq"
| "key (PgDungeonMonsterDrop tdmd_seq) = tdmd_seq"
| "key (PgDungeonMonster tdm_seq) = tdm_seq"
| "key (PgEvolution tv_seq from_monster_no to_monster_no) = tv_seq"
| "key (PgEvolutionMaterial tem_seq) = tem_seq"
| "key (PgMonster monster_no) = monster_no"
| "key (PgMonsterAddInfo monster_no) = monster_no"
| "key (PgMonsterInfo monster_no) = monster_no"
| "key (PgMonsterPrice monster_no) = monster_no"
| "key (PgSeries tsr_seq deleted_yn) = tsr_seq"
| "key (PgSkillLeaderData ts_seq) = ts_seq"
| "key (PgSkill ts_seq) = ts_seq"
| "key (PgSkillRotation tsr_seq server) = tsr_seq"
| "key (PgSkillRotationDated tsrl_seq) = tsrl_seq"
| "key (PgType tt_seq) = tt_seq"

text \<open>\<^verbatim>\<open>PgItem.deleted\<close> returns False; four subclasses override it.\<close>

fun deleted :: "pg_item \<Rightarrow> bool" where
  "deleted (PgAwakening tma_seq deleted_yn) = (deleted_yn = ''Y'')"
| "deleted (PgEvolution tv_seq from_monster_no to_monster_no) =
     (from_monster_no = 0 \<or> to_monster_no = 0)"
| "deleted (PgSeries tsr_seq deleted_yn) = (deleted_yn = ''Y'')"
| "deleted (PgSkillRotation tsr_seq server) = (server = ''KR'')"
| "deleted _ = False"

record pg_raw_database =
  skip_load :: bool
  all_pg_items :: "pg_item list"

text \<open>
  \<open>load db json\<close>: \<open>json\<close> is \<open>None\<close> when the dataset's file is not valid JSON, and
  otherwise the list \<^verbatim>\<open>[itemtype(item) for item in json_data['items']]\<close> of the items
  constructed from its rows. The result is the id map together with the database,
  whose traversal list has been extended by the map's values.
\<close>

definition load :: "pg_raw_database \<Rightarrow> pg_item list option \<Rightarrow> (int, pg_item) dict \<times> pg_raw_database" where
  "load db json =
     (if skip_load db then ([], db)
      else
        let item_list = (case json of None \<Rightarrow> [] | Some items \<Rightarrow> items);
            result_map = foldl (\<lambda>d item. dict_set d (key item) item) []
                           (filter (\<lambda>item. \<not> deleted item) item_list)
        in (result_map, db\<lparr>all_pg_items := all_pg_items db @ dict_values result_map\<rparr>))"

subsection \<open>Python floats\<close>

text \<open>
  A \<^verbatim>\<open>float\<close> is an IEEE 754 double: a finite value is the rational number it denotes,
  and there are the two infinities and NaN. The two zeros are one value here; \<^verbatim>\<open>int\<close>
  maps both to 0.
\<close>

datatype py_float = Finite rat | PosInf | NegInf | NaN

text \<open>The nearest integer, a tie going to the even one.\<close>

definition round_half_even :: "rat \<Rightarrow> int" where
  "round_half_even y =
     (let f = \<lfloor>y\<rfloor>; d = y - of_int f
      in if d < 1 / 2 then f else if 1 / 2 < d then f + 1 else if even f then f else f + 1)"

text \<open>The exponent \<open>e\<close> of a non-zero \<open>x\<close>: \<open>2\<^sup>e \<le> \<bar>x\<bar> < 2\<^sup>e\<^sup>+\<^sup>1\<close>.\<close>

definition binade :: "rat \<Rightarrow> int" where
  "binade x =
     (if 1 \<le> \<bar>x\<bar> then bitlen \<lfloor>\<bar>x\<bar>\<rfloor> - 1 else - bitlen (\<lceil>1 / \<bar>x\<bar>\<rceil> - 1))"

text \<open>
  The double nearest to the real number \<open>x\<close>, a tie going to the even significand:
  doubles with exponent \<open>e\<close> are the multiples of \<open>2\<^sup>e\<^sup>-\<^sup>5\<^sup>2\<close>, the exponent is at least
  \<open>-1022\<close> (below are the subnormal numbers, multiples of \<open>2\<^sup>-\<^sup>1\<^sup>0\<^sup>7\<^sup>4\<close>), and a result
  of magnitude \<open>2\<^sup>1\<^sup>0\<^sup>2\<^sup>4\<close> or more is infinite.
\<close>

definition round_double :: "rat \<Rightarrow> py_float" where
  "round_double x =
     (if x = 0 then Finite 0
      else
        let e = max (binade x) (- 1022);
            quantum = 2 powi (e - 52);
            r = of_int (round_half_even (x / quantum)) * quantum
        in if 2 powi 1024 \<le> r then PosInf
           else if r \<le> - (2 powi 1024) then NegInf
           else Finite r)"

text \<open>
  \<^verbatim>\<open>a / b\<close> for integers: the correctly rounded quotient, \<^verbatim>\<open>OverflowError\<close> when it is
  too large for a double, \<^verbatim>\<open>ZeroDivisionError\<close> for a zero divisor.
\<close>

definition int_truediv :: "int \<Rightarrow> int \<Rightarrow> py_error + py_float" where
  "int_truediv a b =
     (if b = 0 then Inl ZeroDivisionError
      else case round_double (of_int a / of_int b) of
             Finite r \<Rightarrow> Inr (Finite r)
           | PosInf \<Rightarrow> Inl OverflowError
           | NegInf \<Rightarrow> Inl OverflowError
           | NaN \<Rightarrow> Inl OverflowError)"

text \<open>\<^verbatim>\<open>x + y\<close> for floats: the correctly rounded sum; it never raises.\<close>

fun float_add :: "py_float \<Rightarrow> py_float \<Rightarrow> py_float" where
  "float_add (Finite a) (Finite b) = round_double (a + b)"
| "float_add NaN y = NaN"
| "float_add x NaN = NaN"
| "float_add PosInf NegInf = NaN"
| "float_add NegInf PosInf = NaN"
| "float_add PosInf y = PosInf"
| "float_add x PosInf = PosInf"
| "float_add NegInf y = NegInf"
| "float_add x NegInf = NegInf"

text \<open>
  \<^verbatim>\<open>int(x)\<close> for a float truncates towards zero; it raises \<^verbatim>\<open>OverflowError\<close> for an
  infinity and \<^verbatim>\<open>ValueError\<close> for NaN.
\<close>

definition py_int :: "rat \<Rightarrow> int" where
  "py_int q = (if 0 \<le> q then \<lfloor>q\<rfloor> else \<lceil>q\<rceil>)"

fun int_of_float :: "py_float \<Rightarrow> py_error + int" where
  "int_of_float (Finite r) = Inr (py_int r)"
| "int_of_float NaN = Inl ValueError"
| "int_of_float PosInf = Inl OverflowError"
| "int_of_float NegInf = Inl OverflowError"

subsection \<open>The stat score of \<^verbatim>\<open>PgMonster.__init__\<close>\<close>

text \<open>
  \<^verbatim>\<open>self.weighted_stats = int(self.hp / 10 + self.atk / 5 + self.rcv / 3)\<close>.
  In Python 3 \<^verbatim>\<open>/\<close> is true division: the three quotients are floats, they are added
  from left to right, and \<^verbatim>\<open>int\<close> truncates the sum. Only the divisions and \<^verbatim>\<open>int\<close>
  can raise.
\<close>

definition weighted_stats :: "int \<Rightarrow> int \<Rightarrow> int \<Rightarrow> py_error + int" where
  "weighted_stats hp atk rcv =
     (case int_truediv hp 10 of Inl e \<Rightarrow> Inl e | Inr a \<Rightarrow>
      case int_truediv atk 5 of Inl e \<Rightarrow> Inl e | Inr b \<Rightarrow>
      case int_truediv rcv 3 of Inl e \<Rightarrow> Inl e | Inr c \<Rightarrow>
      int_of_float (float_add (float_add a b) c))"

subsection \<open>\<^verbatim>\<open>MonsterGroup\<close>\<close>

text \<open>
  Monsters are objects that \<^verbatim>\<open>MonsterGroup\<close> mutates through the references held in
  \<^verbatim>\<open>evo_to\<close> and \<^verbatim>\<open>members\<close>, so they live in a heap: a reference is an address, and
  the heap gives the object at each address. The record has the fields of \<^verbatim>\<open>PgMonster\<close>
  that \<^verbatim>\<open>MonsterGroup\<close> reads and writes.
\<close>

type_synonym ref = nat

record pg_monster =
  evo_to :: "ref list"
  farmable :: bool
  in_pem :: bool
  in_rem :: bool
  in_mpshop :: bool
  farmable_evo :: bool
  pem_evo :: bool
  rem_evo :: bool
  mp_evo :: bool

type_synonym heap = "ref \<Rightarrow> pg_monster"

text \<open>
  \<^verbatim>\<open>_recursive_add\<close> appends the monster to \<^verbatim>\<open>members\<close> and recurses into each
  evolution. The first argument is the recursion depth that the interpreter still
  allows: at depth 0 the call raises \<^verbatim>\<open>RecursionError\<close>, which is what happens on a
  cyclic \<^verbatim>\<open>evo_to\<close>. \<open>recursive_add_all\<close> is the \<^verbatim>\<open>for em in m.evo_to\<close> loop.
\<close>

fun recursive_add :: "nat \<Rightarrow> heap \<Rightarrow> ref \<Rightarrow> ref list \<Rightarrow> py_error + ref list"
  and recursive_add_all :: "nat \<Rightarrow> heap \<Rightarrow> ref list \<Rightarrow> ref list \<Rightarrow> py_error + ref list" where
  "recursive_add 0 h m members = Inl RecursionError"
| "recursive_add (Suc depth) h m members =
     recursive_add_all depth h (evo_to (h m)) (members @ [m])"
| "recursive_add_all depth h [] members = Inr members"
| "recursive_add_all depth h (em # ems) members =
     (case recursive_add depth h em members of
        Inl e \<Rightarrow> Inl e
      | Inr members' \<Rightarrow> recursive_add_all depth h ems members')"

text \<open>The first loop of \<^verbatim>\<open>_initialize_members\<close>: the four flags, or-ed over the members.\<close>

fun acquisition :: "heap \<Rightarrow> ref list \<Rightarrow> bool \<times> bool \<times> bool \<times> bool \<Rightarrow> bool \<times> bool \<times> bool \<times> bool" where
  "acquisition h [] acc = acc"
| "acquisition h (m # ms) (farmable_evo', pem_evo', rem_evo', mp_evo') =
     acquisition h ms
       (farmable_evo' \<or> farmable (h m), pem_evo' \<or> in_pem (h m),
        rem_evo' \<or> in_rem (h m), mp_evo' \<or> in_mpshop (h m))"

text \<open>The second loop: every member's four group flags are overwritten.\<close>

fun override :: "bool \<times> bool \<times> bool \<times> bool \<Rightarrow> ref list \<Rightarrow> heap \<Rightarrow> heap" where
  "override flags [] h = h"
| "override (farmable_evo', pem_evo', rem_evo', mp_evo') (m # ms) h =
     override (farmable_evo', pem_evo', rem_evo', mp_evo') ms
       (h(m := (h m)\<lparr>farmable_evo := farmable_evo', pem_evo := pem_evo',
                     rem_evo := rem_evo', mp_evo := mp_evo'\<rparr>))"

definition initialize_members :: "heap \<Rightarrow> ref list \<Rightarrow> heap" where
  "initialize_members h members =
     override (acquisition h members (False, False, False, False)) members h"

record monster_group =
  base_monster :: ref
  members :: "ref list"

text \<open>\<^verbatim>\<open>MonsterGroup.__init__\<close>: the group, and the heap after the members were updated.\<close>

definition MonsterGroup :: "nat \<Rightarrow> heap \<Rightarrow> ref \<Rightarrow> py_error + (monster_group \<times> heap)" where
  "MonsterGroup depth h base =
     (case recursive_add depth h base [] of
        Inl e \<Rightarrow> Inl e
      | Inr ms \<Rightarrow> Inr (\<lparr>base_monster = base, members = ms\<rparr>, initialize_members h ms))"

subsection \<open>\<^verbatim>\<open>NamedMonster\<close> and \<^verbatim>\<open>MonsterIndex.pickBestMonster\<close>\<close>

text \<open>
  The fields of \<^verbatim>\<open>NamedMonster\<close> that the index and the query resolver read. The two
  nickname sets are lists, in the order in which the source iterates over them.
  \<^verbatim>\<open>NamedMonster\<close> defines neither \<^verbatim>\<open>__eq__\<close> nor \<^verbatim>\<open>__hash__\<close>, so a set tells its
  objects apart by their identity: \<open>object_id\<close> is the identity of the object
  (\<^verbatim>\<open>id(nm)\<close>), different for different objects.
\<close>

record named_monster =
  object_id :: nat
  monster_no :: int
  monster_no_na :: int
  is_low_priority :: bool
  group_size :: nat
  rarity :: int
  name_na :: string
  name_jp :: string
  final_nicknames :: "string list"
  final_two_word_nicknames :: "string list"

text \<open>
  \<^verbatim>\<open>max(iterable, key=f)\<close> raises \<^verbatim>\<open>ValueError\<close> on an empty iterable and otherwise
  returns the first element whose key no other element exceeds.
\<close>

fun py_max :: "('a \<Rightarrow> 'k::linorder) \<Rightarrow> 'a list \<Rightarrow> py_error + 'a" where
  "py_max f [] = Inl ValueError"
| "py_max f (x # xs) = Inr (foldl (\<lambda>best y. if f best < f y then y else best) x xs)"

text \<open>
  The key of \<^verbatim>\<open>pickBestMonster\<close>, a tuple that Python compares lexicographically
  (\<^verbatim>\<open>False < True\<close>).
\<close>

definition pick_key :: "named_monster \<Rightarrow> bool \<times> int \<times> int" where
  "pick_key x = (\<not> is_low_priority x, rarity x, monster_no_na x)"

definition pickBestMonster :: "named_monster list \<Rightarrow> py_error + named_monster" where
  "pickBestMonster named_monster_list = py_max pick_key named_monster_list"

subsection \<open>Python strings\<close>

text \<open>
  A \<^verbatim>\<open>str\<close> is a sequence of code points. The model has the code points below 256,
  one \<open>char\<close> each, with Python's classification of them: \<^verbatim>\<open>str.isspace\<close>,
  \<^verbatim>\<open>str.isdecimal\<close>, \<^verbatim>\<open>str.isdigit\<close> (which also accepts the superscript digits
  U+00B2, U+00B3 and U+00B9) and \<^verbatim>\<open>str.lower\<close>.
\<close>

definition isspace_char :: "char \<Rightarrow> bool" where
  "isspace_char c =
     (let n = (of_char c :: nat)
      in (9 \<le> n \<and> n \<le> 13) \<or> (28 \<le> n \<and> n \<le> 32) \<or> n = 133 \<or> n = 160)"

definition isdecimal_char :: "char \<Rightarrow> bool" where
  "isdecimal_char c = (let n = (of_char c :: nat) in 48 \<le> n \<and> n \<le> 57)"

definition isdigit_char :: "char \<Rightarrow> bool" where
  "isdigit_char c =
     (let n = (of_char c :: nat) in (48 \<le> n \<and> n \<le> 57) \<or> n = 178 \<or> n = 179 \<or> n = 185)"

definition lower_char :: "char \<Rightarrow> char" where
  "lower_char c =
     (let n = (of_char c :: nat)
      in if (65 \<le> n \<and> n \<le> 90) \<or> (192 \<le> n \<and> n \<le> 222 \<and> n \<noteq> 215)
         then char_of (n + 32) else c)"

definition lower :: "string \<Rightarrow> string" where
  "lower s = map lower_char s"

definition strip :: "string \<Rightarrow> string" where
  "strip s = rev (dropWhile isspace_char (rev (dropWhile isspace_char s)))"

definition isdigit :: "string \<Rightarrow> bool" where
  "isdigit s = (s \<noteq> [] \<and> list_all isdigit_char s)"

text \<open>\<^verbatim>\<open>s.startswith(p)\<close> and \<^verbatim>\<open>x in s\<close>.\<close>

definition startswith :: "string \<Rightarrow> string \<Rightarrow> bool" where
  "startswith s p = (take (length p) s = p)"

fun contains :: "string \<Rightarrow> string \<Rightarrow> bool" where
  "contains x [] = (x = [])"
| "contains x (c # cs) = (startswith (c # cs) x \<or> contains x cs)"

text \<open>\<^verbatim>\<open>s.split(sep)\<close> for a separator of one character: always at least one part.\<close>

fun split :: "char \<Rightarrow> string \<Rightarrow> string list" where
  "split sep [] = [[]]"
| "split sep (c # cs) =
     (if c = sep then [] # split sep cs
      else (case split sep cs of [] \<Rightarrow> [[c]] | part # parts \<Rightarrow> (c # part) # parts))"

text \<open>
  \<^verbatim>\<open>s.replace(old, '')\<close>: every occurrence of \<open>old\<close>, found from left to right without
  overlap, is removed.
\<close>

function replace_by_empty :: "string \<Rightarrow> string \<Rightarrow> string" where
  "replace_by_empty old [] = []"
| "replace_by_empty old (c # cs) =
     (if old \<noteq> [] \<and> startswith (c # cs) old
      then replace_by_empty old (drop (length old) (c # cs))
      else c # replace_by_empty old cs)"
  by pat_completeness auto
termination
  by (relation "measure (\<lambda>(old, s). length s)") auto

text \<open>\<^verbatim>\<open>sep.join(parts)\<close>.\<close>

fun join :: "string \<Rightarrow> string list \<Rightarrow> string" where
  "join sep [] = []"
| "join sep [x] = x"
| "join sep (x # y # ys) = x @ sep @ join sep (y # ys)"

text \<open>
  \<^verbatim>\<open>int(s)\<close> at a string for which \<^verbatim>\<open>s.isdigit()\<close> holds: it returns the decimal value
  when every character is a decimal digit, and raises \<^verbatim>\<open>ValueError\<close> otherwise.
\<close>

definition int_of_digits :: "string \<Rightarrow> py_error + int" where
  "int_of_digits s =
     (if s \<noteq> [] \<and> list_all isdecimal_char s
      then Inr (foldl (\<lambda>a c. 10 * a + (int (of_char c) - 48)) 0 s)
      else Inl ValueError)"

text \<open>\<^verbatim>\<open>'{}'.format(n)\<close> for a length \<open>n\<close>.\<close>

function str_of_nat :: "nat \<Rightarrow> string" where
  "str_of_nat n =
     (if n < 10 then [char_of (48 + n)]
      else str_of_nat (n div 10) @ [char_of (48 + n mod 10)])"
  by pat_completeness auto
termination
  by (relation "measure id") auto

declare str_of_nat.simps [simp del]

subsection \<open>\<^verbatim>\<open>NamedMonsterGroup._compute_monster_basename\<close>\<close>

text \<open>
  The method reads \<^verbatim>\<open>m.name_na\<close> and nothing else of the monster, so the model takes
  that string. \<^verbatim>\<open>name_parts[1]\<close> exists where it is read: the name has a comma there.
\<close>

definition compute_monster_basename :: "string \<Rightarrow> string" where
  "compute_monster_basename m_name_na =
     (let basename = lower m_name_na;
          basename =
            (if CHR '','' \<in> set basename
             then (let name_parts = split CHR '','' basename
                   in if startswith (strip (name_parts ! 1)) ''the ''
                      then name_parts ! 0
                      else last name_parts)
             else basename);
          basename =
            foldl (\<lambda>basename x. if startswith basename x then replace_by_empty x basename else basename)
              basename [''awoken'', ''reincarnated'']
      in strip basename)"

text \<open>
  The basename as the specification words it: lowercase the name; with a comma, keep the
  text before the first comma when the segment after it starts (after its blanks) with
  \<open>the\<close> and a blank, and the text after the last comma otherwise; strip a leading
  \<open>awoken\<close>, then a leading \<open>reincarnated\<close>; trim.
\<close>

definition comma_part :: "string \<Rightarrow> string" where
  "comma_part name =
     (let before_first = takeWhile (\<lambda>c. c \<noteq> CHR '','') name;
          after_first = takeWhile (\<lambda>c. c \<noteq> CHR '','') (drop 1 (dropWhile (\<lambda>c. c \<noteq> CHR '','') name));
          after_last = rev (takeWhile (\<lambda>c. c \<noteq> CHR '','') (rev name))
      in if CHR '','' \<in> set name
         then (if startswith (strip after_first) ''the '' then before_first else after_last)
         else name)"

definition strip_leading :: "string \<Rightarrow> string \<Rightarrow> string" where
  "strip_leading x s = (if startswith s x then drop (length x) s else s)"

definition spec_monster_basename :: "string \<Rightarrow> string" where
  "spec_monster_basename m_name_na =
     strip (strip_leading ''reincarnated'' (strip_leading ''awoken'' (comma_part (lower m_name_na))))"

subsection \<open>\<^verbatim>\<open>MonsterIndex.__init__\<close>\<close>

record monster_index =
  all_entries :: "(string, named_monster) dict"
  two_word_entries :: "(string, named_monster) dict"
  all_monsters :: "named_monster list"
  all_na_name_to_monsters :: "(string, named_monster) dict"
  monster_no_na_to_named_monster :: "(int, named_monster) dict"
  monster_no_to_named_monster :: "(int, named_monster) dict"

text \<open>The sort key of the named monsters; \<^verbatim>\<open>list.sort\<close> is stable, as \<open>sort_key\<close> is.\<close>

definition named_monsters_sort :: "named_monster \<Rightarrow> bool \<times> nat \<times> int" where
  "named_monsters_sort nm = (\<not> is_low_priority nm, group_size nm, monster_no_na nm)"

text \<open>
  The bulk build of a nickname dictionary: for every monster in order, every nickname
  of it is assigned the monster, so that a later monster takes a nickname over.
\<close>

definition bulk_entries :: "(named_monster \<Rightarrow> string list) \<Rightarrow> named_monster list \<Rightarrow> (string, named_monster) dict" where
  "bulk_entries nicknames named_monsters =
     foldl (\<lambda>entries nm. foldl (\<lambda>entries nickname. dict_set entries nickname nm) entries (nicknames nm))
       [] named_monsters"

text \<open>\<^verbatim>\<open>{f(m): m for m in named_monsters}\<close>.\<close>

definition dict_by :: "(named_monster \<Rightarrow> 'k) \<Rightarrow> named_monster list \<Rightarrow> ('k, named_monster) dict" where
  "dict_by f named_monsters = foldl (\<lambda>d m. dict_set d (f m) m) [] named_monsters"

text \<open>The last loop of the constructor: the manual overrides, applied after the bulk build.\<close>

definition apply_overrides ::
  "(int, named_monster) dict \<Rightarrow> (string, int) dict \<Rightarrow> (string, named_monster) dict \<Rightarrow> (string, named_monster) dict" where
  "apply_overrides by_no_na nickname_overrides entries =
     foldl (\<lambda>entries (nickname, monster_no_na).
              case dict_get by_no_na monster_no_na of
                None \<Rightarrow> entries
              | Some nm \<Rightarrow> dict_set entries nickname nm)
       entries nickname_overrides"

text \<open>
  The constructor from the point where \<^verbatim>\<open>named_monsters\<close> has been filled (one
  \<^verbatim>\<open>NamedMonster\<close> per accepted member of every group): the sort, the two nickname
  dictionaries, the lookup dictionaries and the overrides.
\<close>

definition MonsterIndex :: "named_monster list \<Rightarrow> (string, int) dict \<Rightarrow> monster_index" where
  "MonsterIndex unsorted_named_monsters nickname_overrides =
     (let named_monsters = sort_key named_monsters_sort unsorted_named_monsters;
          by_no_na = dict_by monster_no_na named_monsters
      in \<lparr>all_entries =
            apply_overrides by_no_na nickname_overrides (bulk_entries final_nicknames named_monsters),
          two_word_entries = bulk_entries final_two_word_nicknames named_monsters,
          all_monsters = named_monsters,
          all_na_name_to_monsters = dict_by (\<lambda>m. lower (name_na m)) named_monsters,
          monster_no_na_to_named_monster = by_no_na,
          monster_no_to_named_monster = dict_by monster_no named_monsters\<rparr>)"

subsection \<open>\<^verbatim>\<open>MonsterIndex.find_monster\<close>\<close>

text \<open>
  Functions of \<^verbatim>\<open>rpadutils\<close> and of the library \<^verbatim>\<open>difflib\<close>, whose code is not part
  of the sources: the query resolver takes them as parameters. The same holds for the
  order in which the interpreter iterates over a set of objects, which follows from the
  hashes of the objects (their addresses): \<open>set_iteration\<close> gives that order for the
  objects of a set, listed as they were added.
\<close>

record externals =
  rmdiacritics :: "string \<Rightarrow> string"
  containsJp :: "string \<Rightarrow> bool"
  get_close_matches :: "string \<Rightarrow> string list \<Rightarrow> nat \<Rightarrow> rat \<Rightarrow> string list"
  set_iteration :: "named_monster list \<Rightarrow> named_monster list"

text \<open>
  An instance for queries without diacritics and without Japanese script, with a
  close-match search that finds nothing and sets that are iterated in the order of
  insertion.
\<close>

definition plain_externals :: externals where
  "plain_externals =
     \<lparr>rmdiacritics = (\<lambda>s. s), containsJp = (\<lambda>s. False),
      get_close_matches = (\<lambda>word possibilities n cutoff. []),
      set_iteration = (\<lambda>s. s)\<rparr>"

type_synonym find_result = "named_monster option \<times> string option \<times> string option"

text \<open>
  \<^verbatim>\<open>matches\<close> is a set of \<^verbatim>\<open>NamedMonster\<close> objects: \<^verbatim>\<open>matches.add(m)\<close> adds the
  object unless the same object is in the set. The set is the list of its objects as they
  were added; its size is the length of the list, and \<open>set_iteration\<close> gives the
  order in which \<^verbatim>\<open>max\<close> and \<^verbatim>\<open>map\<close> go through it.
\<close>

definition set_add :: "named_monster list \<Rightarrow> named_monster \<Rightarrow> named_monster list" where
  "set_add s x = (if object_id x \<in> set (map object_id s) then s else s @ [x])"

definition scan_entries ::
  "(string \<Rightarrow> named_monster \<Rightarrow> bool) \<Rightarrow> (string, named_monster) dict \<Rightarrow> named_monster list" where
  "scan_entries accept entries =
     foldl (\<lambda>matches (nickname, m). if accept nickname m then set_add matches m else matches)
       [] entries"

definition scan_monsters :: "(named_monster \<Rightarrow> bool) \<Rightarrow> named_monster list \<Rightarrow> named_monster list" where
  "scan_monsters accept monsters =
     foldl (\<lambda>matches m. if accept m then set_add matches m else matches) [] monsters"

definition return_best :: "named_monster list \<Rightarrow> string \<Rightarrow> py_error + find_result" where
  "return_best matches label =
     (case pickBestMonster matches of
        Inl e \<Rightarrow> Inl e
      | Inr m \<Rightarrow> Inr (Some m, None, Some label))"

text \<open>\<^verbatim>\<open>d[matches[0]]\<close> for a non-empty \<^verbatim>\<open>matches\<close>; a missing key raises \<^verbatim>\<open>KeyError\<close>.\<close>

definition return_close ::
  "(string, named_monster) dict \<Rightarrow> string \<Rightarrow> string \<Rightarrow> py_error + find_result" where
  "return_close d k label =
     (case dict_get d k of
        None \<Rightarrow> Inl KeyError
      | Some m \<Rightarrow> Inr (Some m, None, Some label))"

text \<open>The stages after the minimum-length gate, from the nickname prefix scans on.\<close>

definition find_by_scan :: "externals \<Rightarrow> monster_index \<Rightarrow> string \<Rightarrow> py_error + find_result" where
  "find_by_scan ext idx query =
     (let matches = scan_entries (\<lambda>nickname m. startswith nickname (query @ '' '')) (all_entries idx)
      in if matches \<noteq> []
         then return_best (set_iteration ext matches)
                (''Space nickname prefix, max of '' @ str_of_nat (length matches))
         else
      let matches = scan_entries (\<lambda>nickname m. startswith nickname query) (all_entries idx)
      in if matches \<noteq> []
         then return_best (set_iteration ext matches)
                (''Nickname prefix, max of '' @ str_of_nat (length matches)
                 @ '', matches=('' @ join '','' (map name_na (set_iteration ext matches)) @ '')'')
         else
      let matches = scan_entries
            (\<lambda>nickname m. startswith (lower (name_na m)) query \<or> startswith (lower (name_jp m)) query)
            (all_entries idx)
      in if matches \<noteq> []
         then return_best (set_iteration ext matches)
                (''Full name, max of '' @ str_of_nat (length matches))
         else
      case dict_get (two_word_entries idx) query of
        Some m \<Rightarrow>
          Inr (Some m, None, Some (''Second-word nickname prefix, max of '' @ str_of_nat (length matches)))
      | None \<Rightarrow>
      let matches = scan_entries
            (\<lambda>nickname m. contains query (lower (name_na m)) \<or> contains query (lower (name_jp m)))
            (all_entries idx)
      in if matches \<noteq> []
         then return_best (set_iteration ext matches)
                (''Full name match on nickname, max of '' @ str_of_nat (length matches))
         else
      let matches = scan_monsters
            (\<lambda>m. contains query (lower (name_na m)) \<or> contains query (lower (name_jp m)))
            (all_monsters idx)
      in if matches \<noteq> []
         then return_best (set_iteration ext matches)
                (''Full name match on full list, max of '' @ str_of_nat (length matches))
         else
      case get_close_matches ext query (dict_keys (all_entries idx)) 1 (4 / 5) of
        k # ks \<Rightarrow> return_close (all_entries idx) k ''Close nickname match''
      | [] \<Rightarrow>
      (case get_close_matches ext query (dict_keys (all_na_name_to_monsters idx)) 1 (9 / 10) of
        k # ks \<Rightarrow> return_close (all_na_name_to_monsters idx) k ''Close name match''
      | [] \<Rightarrow> Inr (None, Some (''Could not find a match for: '' @ query), None)))"

definition find_monster :: "externals \<Rightarrow> monster_index \<Rightarrow> string \<Rightarrow> py_error + find_result" where
  "find_monster ext idx raw_query =
     (let query = strip (lower (rmdiacritics ext raw_query))
      in if isdigit query
         then (case int_of_digits query of
                 Inl e \<Rightarrow> Inl e
               | Inr n \<Rightarrow>
                   (case dict_get (monster_no_na_to_named_monster idx) n of
                      None \<Rightarrow> Inr (None, Some ''Looks like a monster ID but was not found'', None)
                    | Some m \<Rightarrow> Inr (Some m, None, Some ''ID lookup'')))
         else
      case dict_get (all_entries idx) query of
        Some m \<Rightarrow> Inr (Some m, None, Some ''Exact nickname'')
      | None \<Rightarrow>
      let contains_jp = containsJp ext query
      in if length query < 2 \<and> contains_jp
         then Inr (None, Some ''Japanese queries must be at least 2 characters'', None)
         else if length query < 4 \<and> \<not> contains_jp
         then Inr (None, Some ''Your query must be at least 4 letters'', None)
         else find_by_scan ext idx query)"

text \<open>
  The shape of a result of \<^verbatim>\<open>find_monster\<close>: a triple with either a monster and a
  non-empty label and no reason, or a non-empty reason and neither monster nor label.
\<close>

definition returns_triple :: "py_error + find_result \<Rightarrow> bool" where
  "returns_triple r =
     (case r of
        Inl e \<Rightarrow> False
      | Inr (entity, reason, label) \<Rightarrow>
          (case entity of
             Some m \<Rightarrow> reason = None \<and> (case label of Some l \<Rightarrow> l \<noteq> [] | None \<Rightarrow> False)
           | None \<Rightarrow> label = None \<and> (case reason of Some s \<Rightarrow> s \<noteq> [] | None \<Rightarrow> False)))"

subsection \<open>Sample data\<close>

text \<open>
  Two monsters of one series that both claim the nickname \<open>kali\<close>, and an override table
  with a nickname of the first monster given to the second, a numeric nickname, an alias
  id without monster and a short nickname.
\<close>

definition kali :: named_monster where
  "kali = \<lparr>object_id = 1, monster_no = 5, monster_no_na = 5, is_low_priority = False, group_size = 3, rarity = 6,
            name_na = ''Kali'', name_jp = ''Kali'',
            final_nicknames = [''kali'', ''revo kali''], final_two_word_nicknames = []\<rparr>"

definition durga :: named_monster where
  "durga = \<lparr>object_id = 2, monster_no = 7, monster_no_na = 7, is_low_priority = False, group_size = 3, rarity = 7,
             name_na = ''Durga'', name_jp = ''Durga'',
             final_nicknames = [''durga'', ''kali''], final_two_word_nicknames = []\<rparr>"

definition sample_overrides :: "(string, int) dict" where
  "sample_overrides = [(''revo kali'', 7), (''123'', 5), (''kali'', 99), (''dk'', 7)]"

definition sample_index :: monster_index where
  "sample_index = MonsterIndex [durga, kali] sample_overrides"

text \<open>
  Four candidates of a tie-break: a low-priority monster with the highest rarity and id, a
  monster of lower rarity, and two monsters that differ in their id only.
\<close>

definition tamadra :: named_monster where
  "tamadra = \<lparr>object_id = 3, monster_no = 90, monster_no_na = 90, is_low_priority = True,
               group_size = 1, rarity = 9, name_na = ''TAMADRA'', name_jp = ''TAMADRA'',
               final_nicknames = [''tamadra''], final_two_word_nicknames = []\<rparr>"

definition ogre :: named_monster where
  "ogre = \<lparr>object_id = 4, monster_no = 80, monster_no_na = 80, is_low_priority = False,
            group_size = 2, rarity = 3, name_na = ''Ogre'', name_jp = ''Ogre'',
            final_nicknames = [''ogre''], final_two_word_nicknames = []\<rparr>"

definition odin :: named_monster where
  "odin = \<lparr>object_id = 5, monster_no = 10, monster_no_na = 10, is_low_priority = False,
            group_size = 2, rarity = 6, name_na = ''Odin'', name_jp = ''Odin'',
            final_nicknames = [''odin''], final_two_word_nicknames = []\<rparr>"

definition odin_evo :: named_monster where
  "odin_evo = \<lparr>object_id = 6, monster_no = 20, monster_no_na = 20, is_low_priority = False,
                group_size = 2, rarity = 6, name_na = ''Odin'', name_jp = ''Odin'',
                final_nicknames = [''odin''], final_two_word_nicknames = []\<rparr>"

section \<open>Properties\<close>

subsection \<open>Dictionaries\<close>

lemma map_of_dict_set: "map_of (dict_set d k v) = (map_of d)(k \<mapsto> v)"
  by (induction d) (auto simp: fun_upd_twist)

lemma dict_get_dict_set: "dict_get (dict_set d k v) k' = (if k' = k then Some v else dict_get d k')"
  by (simp add: dict_get_def map_of_dict_set)

lemma set_values_dict_set: "set (dict_values (dict_set d k v)) \<subseteq> insert v (set (dict_values d))"
  by (induction d) (force simp: dict_values_def split: if_splits)+

lemma keys_dict_set: "set (dict_keys (dict_set d k v)) = insert k (set (dict_keys d))"
  by (induction d) (force simp: dict_keys_def split: if_splits)+

lemma distinct_keys_dict_set: "distinct (dict_keys d) \<Longrightarrow> distinct (dict_keys (dict_set d k v))"
proof (induction d)
  case Nil
  then show ?case by (simp add: dict_keys_def)
next
  case (Cons a d)
  obtain k' v' where a: "a = (k', v')" by (cases a)
  from Cons.prems a have k': "k' \<notin> set (dict_keys d)" and d: "distinct (dict_keys d)"
    by (simp_all add: dict_keys_def)
  show ?case
  proof (cases "k' = k")
    case True
    with Cons.prems a show ?thesis by (simp add: dict_keys_def)
  next
    case False
    have "dict_keys (dict_set (a # d) k v) = k' # dict_keys (dict_set d k v)"
      using False a by (simp add: dict_keys_def)
    moreover have "k' \<notin> set (dict_keys (dict_set d k v))"
      using False k' by (simp add: keys_dict_set)
    ultimately show ?thesis using Cons.IH [OF d] by simp
  qed
qed

lemma values_foldl_dict_set:
  "set (dict_values (foldl (\<lambda>d item. dict_set d (f item) item) d0 xs)) \<subseteq> set (dict_values d0) \<union> set xs"
proof (induction xs arbitrary: d0)
  case Nil
  then show ?case by simp
next
  case (Cons x xs)
  have "set (dict_values (foldl (\<lambda>d item. dict_set d (f item) item) (dict_set d0 (f x) x) xs))
          \<subseteq> set (dict_values (dict_set d0 (f x) x)) \<union> set xs"
    by (rule Cons.IH)
  also have "\<dots> \<subseteq> insert x (set (dict_values d0)) \<union> set xs"
    using set_values_dict_set [of d0 "f x" x] by blast
  finally show ?case by auto
qed

subsection \<open>The record store drops deleted rows\<close>

text \<open>
  Claim C8. Whatever the entity type, no value of the map that \<open>load\<close> returns is deleted:
  a row whose entity reports \<open>deleted\<close> is not among the map's values, and \<open>load\<close>
  appends exactly the map's values to the traversal list, so the row does not enter the
  list either.
\<close>

theorem load_drops_deleted:
  assumes "load db json = (result_map, db')"
  shows "list_all (\<lambda>item. \<not> deleted item) (dict_values result_map)
       \<and> all_pg_items db' = all_pg_items db @ (if skip_load db then [] else dict_values result_map)
       \<and> (\<forall>item. deleted item \<longrightarrow>
             item \<notin> set (dict_values result_map)
           \<and> (item \<in> set (all_pg_items db') \<longrightarrow> item \<in> set (all_pg_items db)))"
proof -
  have vals: "set (dict_values result_map) \<subseteq> {item. \<not> deleted item}"
  proof (cases "skip_load db")
    case True
    with assms show ?thesis by (simp add: load_def dict_values_def)
  next
    case False
    define items where "items = (case json of None \<Rightarrow> [] | Some is \<Rightarrow> is)"
    from False assms have "result_map = foldl (\<lambda>d item. dict_set d (key item) item) []
        (filter (\<lambda>item. \<not> deleted item) items)"
      by (simp add: load_def Let_def items_def)
    then have "set (dict_values result_map) \<subseteq> set (filter (\<lambda>item. \<not> deleted item) items)"
      using values_foldl_dict_set [of key "[]" "filter (\<lambda>item. \<not> deleted item) items"]
      by (simp add: dict_values_def)
    then show ?thesis by auto
  qed
  have ext: "all_pg_items db' = all_pg_items db @ (if skip_load db then [] else dict_values result_map)"
    using assms by (auto simp: load_def Let_def split: if_splits)
  from vals have "list_all (\<lambda>item. \<not> deleted item) (dict_values result_map)"
    by (auto simp: list_all_iff)
  moreover from vals ext have "\<forall>item. deleted item \<longrightarrow>
             item \<notin> set (dict_values result_map)
           \<and> (item \<in> set (all_pg_items db') \<longrightarrow> item \<in> set (all_pg_items db))"
    by (auto split: if_splits)
  ultimately show ?thesis using ext by blast
qed

theorem load_drops_deleted_witness:
  "load \<lparr>skip_load = False, all_pg_items = []\<rparr>
       (Some [PgAwakening 1 ''N'', PgAwakening 2 ''Y'', PgAwakening 3 ''N'', PgAwakening 1 ''Y''])
     = ([(1::int, PgAwakening 1 ''N''), (3, PgAwakening 3 ''N'')],
        \<lparr>skip_load = False, all_pg_items = [PgAwakening 1 ''N'', PgAwakening 3 ''N'']\<rparr>)
   \<and> deleted (PgAwakening 2 ''Y'')
   \<and> PgAwakening 2 ''Y'' \<notin> set (dict_values [(1::int, PgAwakening 1 ''N''), (3, PgAwakening 3 ''N'')])
   \<and> PgAwakening 2 ''Y'' \<notin> set [PgAwakening 1 ''N'', PgAwakening 3 ''N'']"
proof -
  have run: "load \<lparr>skip_load = False, all_pg_items = []\<rparr>
       (Some [PgAwakening 1 ''N'', PgAwakening 2 ''Y'', PgAwakening 3 ''N'', PgAwakening 1 ''Y''])
     = ([(1::int, PgAwakening 1 ''N''), (3, PgAwakening 3 ''N'')],
        \<lparr>skip_load = False, all_pg_items = [PgAwakening 1 ''N'', PgAwakening 3 ''N'']\<rparr>)"
    by (simp add: load_def dict_values_def)
  from load_drops_deleted [OF run] show ?thesis using run by simp
qed

subsection \<open>The stat score truncates the sum once\<close>

text \<open>Rounding to a double: the error, and the value for a given exponent and significand.\<close>

lemma round_half_even_error: "\<bar>of_int (round_half_even y) - y\<bar> \<le> 1 / 2"
proof -
  have "of_int \<lfloor>y\<rfloor> \<le> y" "y < of_int \<lfloor>y\<rfloor> + 1" by linarith+
  then show ?thesis by (auto simp: round_half_even_def Let_def)
qed

lemma binade_le:
  assumes "x \<noteq> 0"
  shows "2 powi (binade x) \<le> \<bar>x\<bar>"
proof (cases "1 \<le> \<bar>x\<bar>")
  case True
  then have pos: "0 < \<lfloor>\<bar>x\<bar>\<rfloor>" by linarith
  from bitlen_bounds [OF pos] have "2 ^ nat (bitlen \<lfloor>\<bar>x\<bar>\<rfloor> - 1) \<le> \<lfloor>\<bar>x\<bar>\<rfloor>" by simp
  then have "(of_int (2 ^ nat (bitlen \<lfloor>\<bar>x\<bar>\<rfloor> - 1)) :: rat) \<le> of_int \<lfloor>\<bar>x\<bar>\<rfloor>"
    by (simp only: of_int_le_iff)
  also have "\<dots> \<le> \<bar>x\<bar>" by linarith
  finally have "(2::rat) ^ nat (bitlen \<lfloor>\<bar>x\<bar>\<rfloor> - 1) \<le> \<bar>x\<bar>" by simp
  moreover have "0 \<le> bitlen \<lfloor>\<bar>x\<bar>\<rfloor> - 1" using pos by (simp add: bitlen_alt_def)
  ultimately show ?thesis using True by (simp add: binade_def power_int_nonneg_exp)
next
  case False
  define n where "n = \<lceil>1 / \<bar>x\<bar>\<rceil>"
  define k where "k = bitlen (n - 1)"
  from False assms have y: "1 < 1 / \<bar>x\<bar>" by simp
  then have n2: "2 \<le> n" unfolding n_def by linarith
  then have pos: "0 < n - 1" by simp
  from bitlen_bounds [OF pos] have "n - 1 < 2 ^ nat k" by (simp add: k_def)
  then have "n \<le> 2 ^ nat k" by simp
  then have "(of_int n :: rat) \<le> of_int (2 ^ nat k)" by (simp only: of_int_le_iff)
  then have "(of_int n :: rat) \<le> 2 ^ nat k" by simp
  moreover have "1 / \<bar>x\<bar> \<le> of_int n" unfolding n_def by linarith
  ultimately have "1 / \<bar>x\<bar> \<le> (2::rat) ^ nat k" by linarith
  then have "1 / (2::rat) ^ nat k \<le> \<bar>x\<bar>"
    using assms by (simp add: field_simps)
  moreover have "0 \<le> k" by (simp add: k_def bitlen_nonneg)
  ultimately show ?thesis
    using False by (simp add: binade_def n_def [symmetric] k_def [symmetric]
        power_int_minus_divide power_int_nonneg_exp)
qed


lemma binade_less:
  assumes "x \<noteq> 0"
  shows "\<bar>x\<bar> < 2 powi (binade x + 1)"
proof (cases "1 \<le> \<bar>x\<bar>")
  case True
  then have pos: "0 < \<lfloor>\<bar>x\<bar>\<rfloor>" by linarith
  define k where "k = bitlen \<lfloor>\<bar>x\<bar>\<rfloor>"
  from bitlen_bounds [OF pos] have "\<lfloor>\<bar>x\<bar>\<rfloor> + 1 \<le> 2 ^ nat k" by (simp add: k_def)
  then have "(of_int (\<lfloor>\<bar>x\<bar>\<rfloor> + 1) :: rat) \<le> of_int (2 ^ nat k)" by (simp only: of_int_le_iff)
  then have "(of_int \<lfloor>\<bar>x\<bar>\<rfloor> :: rat) + 1 \<le> 2 ^ nat k" by simp
  moreover have "\<bar>x\<bar> < of_int \<lfloor>\<bar>x\<bar>\<rfloor> + 1" by linarith
  ultimately have "\<bar>x\<bar> < 2 ^ nat k" by linarith
  moreover have "0 \<le> k" by (simp add: k_def bitlen_nonneg)
  ultimately show ?thesis using True by (simp add: binade_def k_def [symmetric] power_int_nonneg_exp)
next
  case False
  define n where "n = \<lceil>1 / \<bar>x\<bar>\<rceil>"
  define k where "k = bitlen (n - 1)"
  from False assms have y: "1 < 1 / \<bar>x\<bar>" by simp
  then have n2: "2 \<le> n" unfolding n_def by linarith
  then have pos: "0 < n - 1" by simp
  then have k1: "1 \<le> k" by (simp add: k_def bitlen_alt_def)
  from bitlen_bounds [OF pos] have "2 ^ nat (k - 1) \<le> n - 1" by (simp add: k_def)
  then have "(of_int (2 ^ nat (k - 1)) :: rat) \<le> of_int (n - 1)" by (simp only: of_int_le_iff)
  then have "(2::rat) ^ nat (k - 1) \<le> of_int n - 1" by simp
  moreover have "of_int n - 1 < 1 / \<bar>x\<bar>" unfolding n_def by linarith
  ultimately have "(2::rat) ^ nat (k - 1) < 1 / \<bar>x\<bar>" by linarith
  then have "\<bar>x\<bar> < 1 / 2 ^ nat (k - 1)" using assms by (simp add: field_simps)
  moreover have "(2::rat) powi (- k + 1) = 1 / 2 ^ nat (k - 1)"
    using k1 power_int_minus_divide [of "2::rat" "k - 1"] by (simp add: power_int_nonneg_exp)
  ultimately show ?thesis
    using False by (simp add: binade_def n_def [symmetric] k_def [symmetric])
qed

lemma binade_unique:
  assumes "2 powi e \<le> \<bar>x\<bar>" "\<bar>x\<bar> < 2 powi (e + 1)"
  shows "binade x = e"
proof -
  have "(0::rat) < 2 powi e" by simp
  with assms(1) have "0 < \<bar>x\<bar>" by linarith
  then have nz: "x \<noteq> 0" by simp
  have "(2::rat) powi (binade x) < 2 powi (e + 1)"
    using binade_le [OF nz] assms(2) by linarith
  then have "binade x < e + 1"
    by (metis linorder_not_le one_le_numeral power_int_increasing)
  moreover have "(2::rat) powi e < 2 powi (binade x + 1)"
    using binade_less [OF nz] assms(1) by linarith
  then have "e < binade x + 1"
    by (metis linorder_not_le one_le_numeral power_int_increasing)
  ultimately show ?thesis by linarith
qed

lemma round_half_even_unique:
  assumes "\<bar>of_int m - y\<bar> < 1 / 2"
  shows "round_half_even y = m"
proof -
  have "\<bar>of_int (round_half_even y) - y\<bar> \<le> 1 / 2" by (rule round_half_even_error)
  with assms have "\<bar>(of_int (round_half_even y) :: rat) - of_int m\<bar> < 1" by linarith
  then have "\<bar>(of_int (round_half_even y - m) :: rat)\<bar> < of_int 1" by simp
  then have "\<bar>round_half_even y - m\<bar> < 1" by (simp only: of_int_abs [symmetric] of_int_less_iff)
  then show ?thesis by linarith
qed

lemma round_double_eq:
  assumes "2 powi e \<le> \<bar>x\<bar>" "\<bar>x\<bar> < 2 powi (e + 1)" "- 1022 \<le> e" "e \<le> 1022"
    and "\<bar>of_int m - x / 2 powi (e - 52)\<bar> < 1 / 2"
  shows "round_double x = Finite (of_int m * 2 powi (e - 52))"
proof -
  have "(0::rat) < 2 powi e" by simp
  with assms(1) have "0 < \<bar>x\<bar>" by linarith
  then have nz: "x \<noteq> 0" by simp
  have e: "max (binade x) (- 1022) = e" using binade_unique [OF assms(1,2)] assms(3) by simp
  have m: "round_half_even (x / 2 powi (e - 52)) = m" by (rule round_half_even_unique [OF assms(5)])
  define q :: rat where "q = 2 powi (e - 52)"
  have qpos: "0 < q" by (simp add: q_def)
  have q2: "q * 2 ^ 52 = 2 powi e"
    using power_int_add [of "2::rat" "e - 52" 52] by (simp add: q_def)
  have "\<bar>of_int m * q - x\<bar> = q * \<bar>of_int m - x / q\<bar>"
  proof -
    have "of_int m * q - x = q * (of_int m - x / q)" using qpos by (simp add: field_simps)
    then show ?thesis using qpos by (simp add: abs_mult)
  qed
  also have "\<dots> \<le> q * (1 / 2)" using qpos assms(5) by (intro mult_left_mono) (simp_all add: q_def)
  finally have "\<bar>of_int m * q - x\<bar> \<le> q / 2" by simp
  moreover have "q / 2 \<le> 2 powi e" using q2 qpos by (simp add: field_simps) 
  ultimately have "\<bar>of_int m * q\<bar> < 2 powi (e + 1) + 2 powi e" using assms(2) by linarith
  moreover have "(2::rat) powi (e + 1) + 2 powi e \<le> 2 powi 1024"
  proof -
    have "(2::rat) powi (e + 1) \<le> 2 powi 1023" "(2::rat) powi e \<le> 2 powi 1023"
      using assms(4) by (intro power_int_increasing; simp)+
    moreover have "(2::rat) powi 1023 + 2 powi 1023 = 2 powi 1024" by simp
    ultimately show ?thesis by linarith
  qed
  ultimately have "\<not> 2 powi 1024 \<le> of_int m * q" "\<not> of_int m * q \<le> - (2 powi 1024)" by linarith+
  then show ?thesis using nz by (simp add: round_double_def Let_def e m q_def)
qed

lemma round_double_overflow:
  assumes "2 powi 1024 \<le> x"
  shows "round_double x = PosInf"
proof -
  have p: "(0::rat) < 2 powi 1024" by simp
  with assms have xpos: "0 < x" by linarith
  then have nz: "x \<noteq> 0" by simp
  define e where "e = binade x"
  define q :: rat where "q = 2 powi (e - 52)"
  have "(2::rat) powi 1024 < 2 powi (e + 1)"
    using binade_less [OF nz] assms xpos by (simp add: e_def)
  then have "1024 < e + 1" by (metis linorder_not_le one_le_numeral power_int_increasing)
  then have e1024: "1024 \<le> e" by simp
  then have emax: "max (binade x) (- 1022) = e" by (simp add: e_def)
  have qpos: "0 < q" by (simp add: q_def)
  have q2: "q * 2 ^ 52 = 2 powi e"
    using power_int_add [of "2::rat" "e - 52" 52] by (simp add: q_def)
  have "2 powi e \<le> x" using binade_le [OF nz] xpos by (simp add: e_def)
  then have "2 ^ 52 \<le> x / q" using q2 qpos by (simp add: field_simps)
  moreover have "\<bar>of_int (round_half_even (x / q)) - x / q\<bar> \<le> 1 / 2" by (rule round_half_even_error)
  ultimately have "(2::rat) ^ 52 - 1 < of_int (round_half_even (x / q))" by linarith
  then have "(of_int (2 ^ 52 - 1) :: rat) < of_int (round_half_even (x / q))" by simp
  then have "2 ^ 52 - 1 < round_half_even (x / q)" by (simp only: of_int_less_iff)
  then have "2 ^ 52 \<le> round_half_even (x / q)" by linarith
  then have "(of_int (2 ^ 52) :: rat) \<le> of_int (round_half_even (x / q))" by (simp only: of_int_le_iff)
  then have "(2::rat) ^ 52 * q \<le> of_int (round_half_even (x / q)) * q"
    using qpos by (intro mult_right_mono) simp_all
  then have "2 powi e \<le> of_int (round_half_even (x / q)) * q" using q2 by (simp add: mult.commute)
  moreover have "(2::rat) powi 1024 \<le> 2 powi e" using e1024 by (intro power_int_increasing) simp_all
  ultimately have "2 powi 1024 \<le> of_int (round_half_even (x / q)) * q" by linarith
  then show ?thesis using nz by (simp add: round_double_def Let_def emax q_def)
qed








text \<open>
  Both cases of a sum that is an integer occur: for \<open>hp = - 4\<close>, \<open>atk = 7\<close> and
  \<open>rcv = 0\<close> the doubles nearest to \<open>- 0.4\<close> and \<open>1.4\<close> add up to the double just
  below 1, and the score is 0 where the exact sum is 1.
\<close>

lemma round_double_minus_2_5: "round_double (of_int (- 4) / of_int 10) = Finite (- 7205759403792794 / 2 ^ 54)"
  using round_double_eq [of "- 2" "of_int (- 4) / of_int 10" "- 7205759403792794"] by simp

lemma round_double_7_5: "round_double (of_int 7 / of_int 5) = Finite (6305039478318694 / 2 ^ 52)"
  using round_double_eq [of 0 "of_int 7 / of_int 5" 6305039478318694] by simp

lemma round_double_sum_below_1: "round_double (- 7205759403792794 / 2 ^ 54 + 6305039478318694 / 2 ^ 52) = Finite (9007199254740991 / 2 ^ 53)"
  using round_double_eq [of "- 1" "- 7205759403792794 / 2 ^ 54 + 6305039478318694 / 2 ^ 52" 9007199254740991] by simp

lemma round_double_sum_plus_0: "round_double (9007199254740991 / 2 ^ 53 + 0) = Finite (9007199254740991 / 2 ^ 53)"
  using round_double_eq [of "- 1" "9007199254740991 / 2 ^ 53 + 0" 9007199254740991] by simp

lemma weighted_stats_rounds_below_1: "weighted_stats (- 4) 7 0 = Inr 0"
proof -
  have z: "round_double (of_int 0 / of_int 3) = Finite 0" by (simp add: round_double_def)
  have fl: "py_int (9007199254740991 / 2 ^ 53) = 0" by (simp add: py_int_def floor_eq_iff)
  show ?thesis
    unfolding weighted_stats_def int_truediv_def
    by (simp only: round_double_minus_2_5 round_double_7_5 round_double_sum_below_1
        round_double_sum_plus_0 z fl py_float.case sum.case float_add.simps int_of_float.simps
        if_False numeral_eq_iff num.distinct zero_neq_numeral numeral_neq_zero simp_thms)
qed

text \<open>A quotient that is too large for a double raises \<^verbatim>\<open>OverflowError\<close>.\<close>

lemma weighted_stats_overflow:
  assumes "10 * 2 ^ 1024 \<le> hp"
  shows "weighted_stats hp atk rcv = Inl OverflowError"
proof -
  from assms have "(of_int (10 * 2 ^ 1024) :: rat) \<le> of_int hp" by (simp only: of_int_le_iff)
  then have "(2::rat) powi 1024 \<le> of_int hp / of_int 10" by simp
  from round_double_overflow [OF this] show ?thesis
    by (simp add: weighted_stats_def int_truediv_def)
qed

subsection \<open>The flags of an evolution group\<close>

lemma acquisition_eq:
  "acquisition h ms (f, p, r, mp) =
     (f \<or> (\<exists>m\<in>set ms. farmable (h m)), p \<or> (\<exists>m\<in>set ms. in_pem (h m)),
      r \<or> (\<exists>m\<in>set ms. in_rem (h m)), mp \<or> (\<exists>m\<in>set ms. in_mpshop (h m)))"
  by (induction ms arbitrary: f p r mp) auto

lemma override_outside: "m \<notin> set ms \<Longrightarrow> override flags ms h m = h m"
  by (induction flags ms h rule: override.induct) auto

lemma override_member:
  "m \<in> set ms \<Longrightarrow>
     override (f, p, r, mp) ms h m =
       (h m)\<lparr>farmable_evo := f, pem_evo := p, rem_evo := r, mp_evo := mp\<rparr>"
proof (induction ms arbitrary: h)
  case Nil
  then show ?case by simp
next
  case (Cons a ms)
  show ?case
  proof (cases "m \<in> set ms")
    case True
    from Cons.IH [OF True] show ?thesis by simp
  next
    case False
    with Cons.prems have "a = m" by simp
    with False show ?thesis by (simp add: override_outside)
  qed
qed

lemma recursive_add_base:
  "recursive_add depth h m acc = Inr ms \<Longrightarrow> \<exists>rest. ms = acc @ m # rest"
  and recursive_add_all_prefix:
  "recursive_add_all depth h cs acc = Inr ms \<Longrightarrow> \<exists>rest. ms = acc @ rest"
proof (induction depth h m acc and depth h cs acc arbitrary: ms and ms rule: recursive_add_recursive_add_all.induct)
  case (1 h m members)
  then show ?case by simp
next
  case (2 depth h m members)
  from "2.prems" have "recursive_add_all depth h (evo_to (h m)) (members @ [m]) = Inr ms" by simp
  from "2.IH" [OF this] show ?case by auto
next
  case (3 depth h members)
  then show ?case by simp
next
  case (4 depth h em ems members)
  from "4.prems" obtain ms' where a: "recursive_add depth h em members = Inr ms'"
    and b: "recursive_add_all depth h ems ms' = Inr ms"
    by (auto split: sum.splits)
  from "4.IH"(1) [OF a] obtain r1 where "ms' = members @ em # r1" by blast
  moreover from "4.IH"(2) [OF a b] obtain r2 where "ms = ms' @ r2" by blast
  ultimately show ?case by simp
qed

text \<open>With enough depth the traversal of an acyclic evolution tree returns.\<close>

lemma recursive_add_returns:
  fixes rank :: "ref \<Rightarrow> nat"
  shows "(\<forall>m. \<forall>c\<in>set (evo_to (h m)). rank c < rank m) \<Longrightarrow> rank m < depth
           \<Longrightarrow> \<exists>ms. recursive_add depth h m acc = Inr ms"
    and "(\<forall>m. \<forall>c\<in>set (evo_to (h m)). rank c < rank m) \<Longrightarrow> (\<forall>c\<in>set cs. rank c < depth)
           \<Longrightarrow> \<exists>ms. recursive_add_all depth h cs acc = Inr ms"
proof (induction depth h m acc and depth h cs acc rule: recursive_add_recursive_add_all.induct)
  case (1 h m members)
  then show ?case by simp
next
  case (2 depth h m members)
  have "\<forall>c\<in>set (evo_to (h m)). rank c < depth"
  proof
    fix c assume "c \<in> set (evo_to (h m))"
    with "2.prems"(1) have "rank c < rank m" by blast
    with "2.prems"(2) show "rank c < depth" by simp
  qed
  from "2.IH" [OF "2.prems"(1) this] show ?case by simp
next
  case (3 depth h members)
  then show ?case by simp
next
  case (4 depth h em ems members)
  from "4.prems"(2) have "rank em < depth" by simp
  from "4.IH"(1) [OF "4.prems"(1) this] obtain ms' where a: "recursive_add depth h em members = Inr ms'" by blast
  from "4.prems"(2) have "\<forall>c\<in>set ems. rank c < depth" by simp
  from "4.IH"(2) [OF a "4.prems"(1) this] obtain ms where "recursive_add_all depth h ems ms' = Inr ms" by blast
  with a show ?case by simp
qed

lemma MonsterGroup_returns:
  fixes rank :: "ref \<Rightarrow> nat"
  assumes "\<forall>m. \<forall>c\<in>set (evo_to (h m)). rank c < rank m" and "rank base < depth"
  shows "\<exists>g h'. MonsterGroup depth h base = Inr (g, h')"
proof -
  from recursive_add_returns(1) [OF assms] obtain ms where "recursive_add depth h base [] = Inr ms"
    by blast
  then show ?thesis by (simp add: MonsterGroup_def)
qed

text \<open>
  Claim C1. When \<open>MonsterGroup\<close> has built a group, the base monster is a member, and
  every member's \<open>farmable_evo\<close>, \<open>pem_evo\<close>, \<open>rem_evo\<close> and \<open>mp_evo\<close> are the
  disjunctions of \<open>farmable\<close>, \<open>in_pem\<close>, \<open>in_rem\<close> and \<open>in_mpshop\<close> over all
  members, whatever the member's flags were before; the members' individual flags and
  all other monsters are unchanged. So a base monster that is not farmable has
  \<open>farmable_evo\<close> as soon as one member is farmable.
\<close>

theorem MonsterGroup_flags_are_or_of_members:
  assumes "MonsterGroup depth h base = Inr (g, h')"
  shows "base_monster g = base \<and> base \<in> set (members g)
       \<and> (\<forall>m\<in>set (members g).
             farmable_evo (h' m) = (\<exists>x\<in>set (members g). farmable (h x))
           \<and> pem_evo (h' m) = (\<exists>x\<in>set (members g). in_pem (h x))
           \<and> rem_evo (h' m) = (\<exists>x\<in>set (members g). in_rem (h x))
           \<and> mp_evo (h' m) = (\<exists>x\<in>set (members g). in_mpshop (h x))
           \<and> farmable (h' m) = farmable (h m) \<and> in_pem (h' m) = in_pem (h m)
           \<and> in_rem (h' m) = in_rem (h m) \<and> in_mpshop (h' m) = in_mpshop (h m))
       \<and> (\<forall>m. m \<notin> set (members g) \<longrightarrow> h' m = h m)
       \<and> ((\<exists>x\<in>set (members g). farmable (h x)) \<longrightarrow> farmable_evo (h' base))"
proof -
  from assms obtain ms where run: "recursive_add depth h base [] = Inr ms"
    and g: "g = \<lparr>base_monster = base, members = ms\<rparr>"
    and h': "h' = initialize_members h ms"
    by (auto simp: MonsterGroup_def split: sum.splits)
  from recursive_add_base [OF run] have base: "base \<in> set ms" by auto
  have mem: "\<And>m. m \<in> set ms \<Longrightarrow> h' m = (h m)\<lparr>farmable_evo := (\<exists>x\<in>set ms. farmable (h x)),
        pem_evo := (\<exists>x\<in>set ms. in_pem (h x)), rem_evo := (\<exists>x\<in>set ms. in_rem (h x)),
        mp_evo := (\<exists>x\<in>set ms. in_mpshop (h x))\<rparr>"
    by (simp add: h' initialize_members_def acquisition_eq override_member)
  have out: "\<And>m. m \<notin> set ms \<Longrightarrow> h' m = h m"
    by (simp add: h' initialize_members_def override_outside)
  show ?thesis using base out by (simp add: g mem)
qed

theorem MonsterGroup_flags_witness:
  "\<exists>g h'. MonsterGroup 3 (\<lambda>r. if r = 0
       then \<lparr>evo_to = [1], farmable = False, in_pem = False, in_rem = False, in_mpshop = False,
              farmable_evo = False, pem_evo = False, rem_evo = False, mp_evo = False\<rparr>
       else \<lparr>evo_to = [], farmable = True, in_pem = False, in_rem = False, in_mpshop = False,
              farmable_evo = True, pem_evo = False, rem_evo = False, mp_evo = False\<rparr>) 0 = Inr (g, h')
     \<and> members g = [0, 1] \<and> farmable_evo (h' 0) \<and> farmable_evo (h' 1) \<and> \<not> farmable (h' 0)"
proof -
  let ?h = "\<lambda>r::nat. if r = 0
       then \<lparr>evo_to = [1], farmable = False, in_pem = False, in_rem = False, in_mpshop = False,
              farmable_evo = False, pem_evo = False, rem_evo = False, mp_evo = False\<rparr>
       else \<lparr>evo_to = [], farmable = True, in_pem = False, in_rem = False, in_mpshop = False,
              farmable_evo = True, pem_evo = False, rem_evo = False, mp_evo = False\<rparr>"
  have run: "MonsterGroup 3 ?h 0 = Inr (\<lparr>base_monster = 0, members = [0, 1]\<rparr>, initialize_members ?h [0, 1])"
    by (simp add: MonsterGroup_def numeral_3_eq_3)
  from MonsterGroup_flags_are_or_of_members [OF run] run show ?thesis by simp
qed

subsection \<open>The tie-break of the query resolver\<close>

lemma foldl_max_key:
  fixes f :: "'a \<Rightarrow> 'k::linorder"
  shows "foldl (\<lambda>best y. if f best < f y then y else best) x xs \<in> set (x # xs)
       \<and> (\<forall>y\<in>set (x # xs). f y \<le> f (foldl (\<lambda>best y. if f best < f y then y else best) x xs))"
proof (induction xs arbitrary: x)
  case Nil
  then show ?case by simp
next
  case (Cons a xs)
  let ?x' = "if f x < f a then a else x"
  from Cons [of ?x'] have IH: "foldl (\<lambda>best y. if f best < f y then y else best) ?x' xs \<in> set (?x' # xs)"
     "\<forall>y\<in>set (?x' # xs). f y \<le> f (foldl (\<lambda>best y. if f best < f y then y else best) ?x' xs)"
    by blast+
  have "f x \<le> f ?x'" "f a \<le> f ?x'" by auto
  with IH(2) have "f x \<le> f (foldl (\<lambda>best y. if f best < f y then y else best) ?x' xs)"
    "f a \<le> f (foldl (\<lambda>best y. if f best < f y then y else best) ?x' xs)"
    by (meson list.set_intros(1) order_trans)+
  with IH show ?case by auto
qed

text \<open>
  Claim C3. On a non-empty collection of candidates \<open>pickBestMonster\<close> returns a
  candidate that is maximal for the tuple \<open>(not is_low_priority, rarity, monster_no_na)\<close>
  in lexicographic order. Spelled out: if any candidate is not low-priority, neither is the
  result; no candidate of the result's priority class has a higher rarity; and no
  candidate of its class and rarity has a higher id. So of two candidates with the same
  class and the same rarity, the one with the smaller id is never the result, and where
  they are the only candidates the one with the larger id is.
\<close>

theorem pickBestMonster_is_maximum:
  assumes "named_monster_list \<noteq> []"
  shows "\<exists>best. pickBestMonster named_monster_list = Inr best
       \<and> best \<in> set named_monster_list
       \<and> (\<forall>y\<in>set named_monster_list.
            (\<not> is_low_priority y, rarity y, monster_no_na y)
              \<le> (\<not> is_low_priority best, rarity best, monster_no_na best))
       \<and> (\<forall>y\<in>set named_monster_list.
            (\<not> is_low_priority y \<longrightarrow> \<not> is_low_priority best)
          \<and> (is_low_priority y = is_low_priority best \<longrightarrow> rarity y \<le> rarity best)
          \<and> (is_low_priority y = is_low_priority best \<and> rarity y = rarity best
               \<longrightarrow> monster_no_na y \<le> monster_no_na best))
       \<and> (\<forall>a\<in>set named_monster_list. \<forall>b\<in>set named_monster_list.
            is_low_priority a = is_low_priority b \<and> rarity a = rarity b
            \<and> monster_no_na a < monster_no_na b \<longrightarrow> best \<noteq> a)
       \<and> (\<forall>a b. set named_monster_list = {a, b}
            \<and> is_low_priority a = is_low_priority b \<and> rarity a = rarity b
            \<and> monster_no_na a < monster_no_na b \<longrightarrow> best = b)"
proof -
  from assms obtain x xs where l: "named_monster_list = x # xs" by (cases named_monster_list) auto
  define best where "best = foldl (\<lambda>best y. if pick_key best < pick_key y then y else best) x xs"
  have r: "pickBestMonster named_monster_list = Inr best"
    by (simp add: pickBestMonster_def l best_def)
  from foldl_max_key [of pick_key x xs] have mem: "best \<in> set named_monster_list"
    and mx: "\<forall>y\<in>set named_monster_list. pick_key y \<le> pick_key best"
    by (simp_all add: l best_def)
  from mx have tuple: "\<forall>y\<in>set named_monster_list.
            (\<not> is_low_priority y, rarity y, monster_no_na y)
              \<le> (\<not> is_low_priority best, rarity best, monster_no_na best)"
    by (simp add: pick_key_def)
  have fields: "(\<not> is_low_priority y \<longrightarrow> \<not> is_low_priority best)
          \<and> (is_low_priority y = is_low_priority best \<longrightarrow> rarity y \<le> rarity best)
          \<and> (is_low_priority y = is_low_priority best \<and> rarity y = rarity best
               \<longrightarrow> monster_no_na y \<le> monster_no_na best)"
    if "y \<in> set named_monster_list" for y
  proof -
    from tuple that have "(\<not> is_low_priority y, rarity y, monster_no_na y)
              \<le> (\<not> is_low_priority best, rarity best, monster_no_na best)" by blast
    then show ?thesis by (auto simp: less_eq_prod_def less_prod_def)
  qed
  have "best \<noteq> a" if "a \<in> set named_monster_list" "b \<in> set named_monster_list"
    "is_low_priority a = is_low_priority b" "rarity a = rarity b" "monster_no_na a < monster_no_na b" for a b
  proof
    assume "best = a"
    with fields [OF that(2)] that(3,4,5) show False by simp
  qed
  then have smaller: "\<forall>a\<in>set named_monster_list. \<forall>b\<in>set named_monster_list.
            is_low_priority a = is_low_priority b \<and> rarity a = rarity b
            \<and> monster_no_na a < monster_no_na b \<longrightarrow> best \<noteq> a"
    by blast
  have "best = b" if "set named_monster_list = {a, b}" "is_low_priority a = is_low_priority b"
    "rarity a = rarity b" "monster_no_na a < monster_no_na b" for a b
  proof -
    from smaller that have "best \<noteq> a" by auto
    with mem that(1) show ?thesis by auto
  qed
  with r mem tuple fields smaller show ?thesis by blast
qed

theorem pickBestMonster_witness:
  "[tamadra, ogre, odin_evo, odin] \<noteq> []
   \<and> pickBestMonster [tamadra, ogre, odin_evo, odin] = Inr odin_evo
   \<and> pickBestMonster [odin, odin_evo] = Inr odin_evo
   \<and> pickBestMonster [odin_evo, odin] = Inr odin_evo"
proof -
  have ne: "[tamadra, ogre, odin_evo, odin] \<noteq> []" by simp
  have prio: "is_low_priority tamadra" "\<not> is_low_priority ogre" "\<not> is_low_priority odin"
    "\<not> is_low_priority odin_evo"
    by (simp_all add: tamadra_def ogre_def odin_def odin_evo_def)
  have rarities: "rarity ogre = 3" "rarity odin = 6" "rarity odin_evo = 6"
    by (simp_all add: ogre_def odin_def odin_evo_def)
  have ids: "monster_no_na odin = 10" "monster_no_na odin_evo = 20"
    by (simp_all add: odin_def odin_evo_def)
  from pickBestMonster_is_maximum [OF ne] obtain best
    where r: "pickBestMonster [tamadra, ogre, odin_evo, odin] = Inr best"
      and mem: "best \<in> set [tamadra, ogre, odin_evo, odin]"
      and fields: "\<forall>y\<in>set [tamadra, ogre, odin_evo, odin].
            (\<not> is_low_priority y \<longrightarrow> \<not> is_low_priority best)
          \<and> (is_low_priority y = is_low_priority best \<longrightarrow> rarity y \<le> rarity best)
          \<and> (is_low_priority y = is_low_priority best \<and> rarity y = rarity best
               \<longrightarrow> monster_no_na y \<le> monster_no_na best)"
    by blast
  from fields prio have 1: "\<not> is_low_priority best" by simp
  with fields prio rarities have 2: "6 \<le> rarity best" by simp
  from fields prio 1 2 rarities ids have 3: "rarity best = 6 \<longrightarrow> 20 \<le> monster_no_na best" by simp
  from mem have "best = tamadra \<or> best = ogre \<or> best = odin_evo \<or> best = odin" by simp
  with 1 2 3 prio rarities ids have "best = odin_evo" by auto
  with r have a: "pickBestMonster [tamadra, ogre, odin_evo, odin] = Inr odin_evo" by simp
  have b: "pickBestMonster [odin, odin_evo] = Inr odin_evo"
    by (simp add: pickBestMonster_def pick_key_def prio rarities ids)
  have c: "pickBestMonster [odin_evo, odin] = Inr odin_evo"
    by (simp add: pickBestMonster_def pick_key_def prio rarities ids)
  from ne a b c show ?thesis by simp
qed

subsection \<open>The basename of a monster\<close>

text \<open>
  Claim C5 describes the basename as the name with its leading \<open>awoken\<close> or
  \<open>reincarnated\<close> stripped. The source tests \<^verbatim>\<open>basename.startswith(x)\<close> and then
  calls \<^verbatim>\<open>basename.replace(x, '')\<close>, which removes every occurrence of the word. For
  the name \<open>Awoken Slayer of the Awoken\<close> the source returns \<open>slayer of the\<close>, where
  stripping the leading word gives \<open>slayer of the awoken\<close>.
\<close>

theorem compute_monster_basename_removes_every_occurrence:
  "compute_monster_basename ''Awoken Slayer of the Awoken'' = ''slayer of the''
   \<and> spec_monster_basename ''Awoken Slayer of the Awoken'' = ''slayer of the awoken''"
  by code_simp

text \<open>
  Where no second occurrence of the word follows a leading \<open>awoken\<close> or
  \<open>reincarnated\<close>, the source computes the basename of the specification: the parts
  of \<^verbatim>\<open>split\<close> are the text before the first comma, between the first two commas and
  after the last comma.
\<close>

lemma split_not_Nil: "split sep s \<noteq> []"
  by (induction s) (auto split: list.splits)

lemma split_without_sep: "sep \<notin> set s \<Longrightarrow> split sep s = [s]"
  by (induction s) auto

lemma hd_split: "hd (split sep s) = takeWhile (\<lambda>c. c \<noteq> sep) s"
  by (induction s) (auto split: list.splits simp: split_not_Nil)

lemma nth0_split: "split sep s ! 0 = takeWhile (\<lambda>c. c \<noteq> sep) s"
  using hd_split [of sep s] split_not_Nil [of sep s] by (simp add: hd_conv_nth)

lemma nth1_split:
  "sep \<in> set s \<Longrightarrow> split sep s ! 1 = takeWhile (\<lambda>c. c \<noteq> sep) (drop 1 (dropWhile (\<lambda>c. c \<noteq> sep) s))"
proof (induction s)
  case Nil
  then show ?case by simp
next
  case (Cons c s)
  show ?case
  proof (cases "c = sep")
    case True
    then show ?thesis using nth0_split [of sep s] by simp
  next
    case False
    with Cons.prems have "sep \<in> set s" by simp
    from Cons.IH [OF this] False show ?thesis
      by (cases "split sep s") (simp_all add: split_not_Nil)
  qed
qed

lemma length_split: "sep \<in> set s \<Longrightarrow> 2 \<le> length (split sep s)"
proof (induction s)
  case Nil
  then show ?case by simp
next
  case (Cons c s)
  show ?case
  proof (cases "c = sep")
    case True
    then show ?thesis using split_not_Nil [of sep s] by (cases "split sep s") simp_all
  next
    case False
    with Cons show ?thesis by (cases "split sep s") simp_all
  qed
qed

lemma last_split: "last (split sep s) = rev (takeWhile (\<lambda>c. c \<noteq> sep) (rev s))"
proof (induction s)
  case Nil
  then show ?case by simp
next
  case (Cons c s)
  show ?case
  proof (cases "c = sep")
    case True
    then show ?thesis using Cons.IH by (simp add: split_not_Nil takeWhile_append)
  next
    case False
    show ?thesis
    proof (cases "sep \<in> set s")
      case True
      from length_split [OF True] obtain p q ps where sp: "split sep s = p # q # ps"
        by (cases "split sep s"; cases "tl (split sep s)") auto
      with Cons.IH True False show ?thesis by (auto simp: takeWhile_append)
    next
      case no: False
      with False show ?thesis by (simp add: split_without_sep takeWhile_append)
    qed
  qed
qed

lemma replace_by_empty_absent: "\<not> contains old s \<Longrightarrow> replace_by_empty old s = s"
  by (induction old s rule: replace_by_empty.induct) auto

lemma replace_by_empty_leading:
  assumes "old \<noteq> []" "startswith s old" "\<not> contains old (drop (length old) s)"
  shows "replace_by_empty old s = drop (length old) s"
proof (cases s)
  case Nil
  with assms show ?thesis by (simp add: startswith_def)
next
  case (Cons c cs)
  with assms show ?thesis by (simp add: replace_by_empty_absent)
qed

lemma replace_if_leading:
  assumes "old \<noteq> []" "startswith s old \<longrightarrow> \<not> contains old (drop (length old) s)"
  shows "(if startswith s old then replace_by_empty old s else s) = strip_leading old s"
  using assms by (simp add: strip_leading_def replace_by_empty_leading)

lemma comma_choice:
  "(if CHR '','' \<in> set s
    then (let name_parts = split CHR '','' s
          in if startswith (strip (name_parts ! 1)) ''the '' then name_parts ! 0 else last name_parts)
    else s) = comma_part s"
proof (cases "CHR '','' \<in> set s")
  case True
  from nth1_split [OF True] show ?thesis
    by (simp add: comma_part_def Let_def nth0_split last_split True)
next
  case False
  then show ?thesis by (simp add: comma_part_def)
qed

lemma compute_monster_basename_eq_spec:
  assumes "startswith (comma_part (lower n)) ''awoken''
             \<longrightarrow> \<not> contains ''awoken'' (drop 6 (comma_part (lower n)))"
    and "startswith (strip_leading ''awoken'' (comma_part (lower n))) ''reincarnated''
             \<longrightarrow> \<not> contains ''reincarnated'' (drop 12 (strip_leading ''awoken'' (comma_part (lower n))))"
  shows "compute_monster_basename n = spec_monster_basename n"
proof -
  have a: "(if startswith (comma_part (lower n)) ''awoken''
            then replace_by_empty ''awoken'' (comma_part (lower n)) else comma_part (lower n))
           = strip_leading ''awoken'' (comma_part (lower n))"
    using assms(1) by (intro replace_if_leading) (simp_all add: eval_nat_numeral)
  have b: "(if startswith (strip_leading ''awoken'' (comma_part (lower n))) ''reincarnated''
            then replace_by_empty ''reincarnated'' (strip_leading ''awoken'' (comma_part (lower n)))
            else strip_leading ''awoken'' (comma_part (lower n)))
           = strip_leading ''reincarnated'' (strip_leading ''awoken'' (comma_part (lower n)))"
    using assms(2) by (intro replace_if_leading) (simp_all add: eval_nat_numeral)
  show ?thesis
    unfolding compute_monster_basename_def spec_monster_basename_def Let_def comma_choice [unfolded Let_def]
    by (simp only: foldl.simps a b)
qed

subsection \<open>The nickname overrides\<close>

lemma dict_get_in_values: "dict_get d k = Some v \<Longrightarrow> v \<in> set (dict_values d)"
  by (force simp: dict_get_def dict_values_def dest: map_of_SomeD)

lemma values_insert_nicknames:
  "set (dict_values (foldl (\<lambda>entries nickname. dict_set entries nickname nm) entries ks))
     \<subseteq> insert nm (set (dict_values entries))"
proof (induction ks arbitrary: entries)
  case Nil
  then show ?case by auto
next
  case (Cons k ks)
  from Cons [of "dict_set entries k nm"] set_values_dict_set [of entries k nm]
  show ?case by auto
qed

lemma values_bulk_from:
  "set (dict_values (foldl (\<lambda>entries nm. foldl (\<lambda>entries nickname. dict_set entries nickname nm) entries (f nm)) e0 nms))
     \<subseteq> set (dict_values e0) \<union> set nms"
proof (induction nms arbitrary: e0)
  case Nil
  then show ?case by simp
next
  case (Cons nm nms)
  from Cons [of "foldl (\<lambda>entries nickname. dict_set entries nickname nm) e0 (f nm)"]
    values_insert_nicknames [of nm e0 "f nm"]
  show ?case by auto
qed

lemma values_bulk_entries: "set (dict_values (bulk_entries f nms)) \<subseteq> set nms"
  using values_bulk_from [of f "[]" nms] by (simp add: bulk_entries_def dict_values_def)

lemma values_dict_by: "set (dict_values (dict_by f nms)) \<subseteq> set nms"
  using values_foldl_dict_set [of f "[]" nms] by (simp add: dict_by_def dict_values_def)

lemma values_apply_overrides:
  "set (dict_values (apply_overrides by_no_na ovr entries))
     \<subseteq> set (dict_values entries) \<union> set (dict_values by_no_na)"
  unfolding apply_overrides_def
proof (induction ovr arbitrary: entries)
  case Nil
  then show ?case by simp
next
  case (Cons a ovr)
  obtain k i where a: "a = (k, i)" by (cases a)
  show ?case
  proof (cases "dict_get by_no_na i")
    case None
    with Cons [of entries] a show ?thesis by simp
  next
    case (Some nm)
    from Cons [of "dict_set entries k nm"] set_values_dict_set [of entries k nm]
      dict_get_in_values [OF Some] a Some
    show ?thesis by auto
  qed
qed

lemma dict_get_apply_overrides:
  assumes "distinct (dict_keys ovr)"
  shows "dict_get (apply_overrides by_no_na ovr entries) k =
           (case map_of ovr k of
              None \<Rightarrow> dict_get entries k
            | Some i \<Rightarrow> (case dict_get by_no_na i of None \<Rightarrow> dict_get entries k | Some nm \<Rightarrow> Some nm))"
  using assms unfolding apply_overrides_def
proof (induction ovr arbitrary: entries)
  case Nil
  then show ?case by simp
next
  case (Cons a ovr)
  obtain k0 i0 where a: "a = (k0, i0)" by (cases a)
  from Cons.prems a have fresh: "map_of ovr k0 = None" and d: "distinct (dict_keys ovr)"
    by (auto simp: dict_keys_def map_of_eq_None_iff)
  show ?case
  proof (cases "k = k0")
    case True
    with fresh Cons.IH [OF d] a show ?thesis
      by (simp add: dict_get_dict_set split: option.splits)
  next
    case False
    with Cons.IH [OF d] a show ?thesis
      by (simp add: dict_get_dict_set split: option.splits)
  qed
qed

lemma all_entries_MonsterIndex:
  "all_entries (MonsterIndex nms ovr) =
     apply_overrides (monster_no_na_to_named_monster (MonsterIndex nms ovr)) ovr
       (bulk_entries final_nicknames (sort_key named_monsters_sort nms))"
  by (simp add: MonsterIndex_def Let_def)

lemma values_all_entries: "set (dict_values (all_entries (MonsterIndex nms ovr))) \<subseteq> set nms"
proof -
  have "set (dict_values (monster_no_na_to_named_monster (MonsterIndex nms ovr))) \<subseteq> set nms"
    using values_dict_by [of monster_no_na "sort_key named_monsters_sort nms"]
    by (simp add: MonsterIndex_def Let_def)
  moreover have "set (dict_values (bulk_entries final_nicknames (sort_key named_monsters_sort nms))) \<subseteq> set nms"
    using values_bulk_entries [of final_nicknames "sort_key named_monsters_sort nms"] by simp
  ultimately show ?thesis
    unfolding all_entries_MonsterIndex
    using values_apply_overrides [of "monster_no_na_to_named_monster (MonsterIndex nms ovr)" ovr
        "bulk_entries final_nicknames (sort_key named_monsters_sort nms)"]
    by blast
qed

text \<open>
  Claim C4 ends with: a query for the nickname of an override resolves to the monster of the
  override. The resolver looks a numeric query up as an id before it looks at the
  nicknames: with the override of the nickname \<open>123\<close> to the monster of alias id 5, the
  nickname dictionary sends \<open>123\<close> to that monster, and the query \<open>123\<close> is answered
  with the missing id 123.
\<close>

theorem override_numeric_nickname_counterexample:
  "(''123'', 5) \<in> set sample_overrides
   \<and> dict_get (monster_no_na_to_named_monster (MonsterIndex [durga, kali] sample_overrides)) 5 = Some kali
   \<and> dict_get (all_entries (MonsterIndex [durga, kali] sample_overrides)) ''123'' = Some kali
   \<and> find_monster plain_externals (MonsterIndex [durga, kali] sample_overrides) ''123''
       = Inr (None, Some ''Looks like a monster ID but was not found'', None)"
  by code_simp

text \<open>
  Claim C4, amended. For an override \<open>(nickname, alias_id)\<close> of an override table (a
  dictionary: no nickname twice) whose alias id has a monster in the index, the nickname
  dictionary of the index sends the nickname to that monster, whatever the bulk build had
  assigned. A query for the nickname resolves to the monster, by the exact nickname stage,
  when the nickname is not a string of digits and is what the resolver's normalisation
  (diacritics removed, lowercased, stripped) makes of it.
\<close>

theorem override_wins:
  assumes "(nickname, alias_id) \<in> set nickname_overrides"
    and "distinct (dict_keys nickname_overrides)"
    and "dict_get (monster_no_na_to_named_monster (MonsterIndex named_monsters nickname_overrides)) alias_id = Some nm"
  shows "dict_get (all_entries (MonsterIndex named_monsters nickname_overrides)) nickname = Some nm
       \<and> (\<not> isdigit nickname \<and> strip (lower (rmdiacritics ext nickname)) = nickname
            \<longrightarrow> find_monster ext (MonsterIndex named_monsters nickname_overrides) nickname
                  = Inr (Some nm, None, Some ''Exact nickname''))"
proof -
  from assms(1,2) have "map_of nickname_overrides nickname = Some alias_id"
    by (simp add: dict_keys_def)
  with assms(3) have entry: "dict_get (all_entries (MonsterIndex named_monsters nickname_overrides)) nickname = Some nm"
    by (simp add: all_entries_MonsterIndex dict_get_apply_overrides [OF assms(2)])
  then show ?thesis by (simp add: find_monster_def)
qed

theorem override_wins_witness:
  "(''revo kali'', 7) \<in> set sample_overrides
   \<and> dict_get (bulk_entries final_nicknames (sort_key named_monsters_sort [durga, kali])) ''revo kali'' = Some kali
   \<and> dict_get (all_entries (MonsterIndex [durga, kali] sample_overrides)) ''revo kali'' = Some durga
   \<and> find_monster plain_externals (MonsterIndex [durga, kali] sample_overrides) ''revo kali''
       = Inr (Some durga, None, Some ''Exact nickname'')"
proof -
  have 1: "(''revo kali'', 7) \<in> set sample_overrides" by (simp add: sample_overrides_def)
  have 2: "distinct (dict_keys sample_overrides)" by (simp add: sample_overrides_def dict_keys_def)
  have 3: "dict_get (monster_no_na_to_named_monster (MonsterIndex [durga, kali] sample_overrides)) 7 = Some durga"
    by code_simp
  have 4: "\<not> isdigit ''revo kali''" by code_simp
  have 5: "strip (lower (rmdiacritics plain_externals ''revo kali'')) = ''revo kali''" by code_simp
  have 6: "dict_get (bulk_entries final_nicknames (sort_key named_monsters_sort [durga, kali])) ''revo kali'' = Some kali"
    by code_simp
  from override_wins [OF 1 2 3, of plain_externals] 1 4 5 6 show ?thesis by simp
qed

text \<open>
  Claim C10. An override whose alias id has no monster in the index changes nothing: the
  nickname has the entry of the bulk build, or none. The construction is a total
  function, and every entry of the nickname dictionary is one of the named monsters.
\<close>

theorem override_of_missing_monster_is_skipped:
  assumes "(nickname, alias_id) \<in> set nickname_overrides"
    and "distinct (dict_keys nickname_overrides)"
    and "dict_get (monster_no_na_to_named_monster (MonsterIndex named_monsters nickname_overrides)) alias_id = None"
  shows "dict_get (all_entries (MonsterIndex named_monsters nickname_overrides)) nickname
           = dict_get (bulk_entries final_nicknames (sort_key named_monsters_sort named_monsters)) nickname
       \<and> (\<forall>k nm. dict_get (all_entries (MonsterIndex named_monsters nickname_overrides)) k = Some nm
            \<longrightarrow> nm \<in> set named_monsters)"
proof -
  from assms(1,2) have "map_of nickname_overrides nickname = Some alias_id"
    by (simp add: dict_keys_def)
  with assms(3) have "dict_get (all_entries (MonsterIndex named_monsters nickname_overrides)) nickname
           = dict_get (bulk_entries final_nicknames (sort_key named_monsters_sort named_monsters)) nickname"
    by (simp add: all_entries_MonsterIndex dict_get_apply_overrides [OF assms(2)])
  moreover have "nm \<in> set named_monsters"
    if "dict_get (all_entries (MonsterIndex named_monsters nickname_overrides)) k = Some nm" for k nm
    using dict_get_in_values [OF that] values_all_entries by blast
  ultimately show ?thesis by blast
qed

theorem override_of_missing_monster_witness:
  "(''kali'', 99) \<in> set sample_overrides
   \<and> dict_get (monster_no_na_to_named_monster (MonsterIndex [durga, kali] sample_overrides)) 99 = None
   \<and> dict_get (all_entries (MonsterIndex [durga, kali] sample_overrides)) ''kali'' = Some durga
   \<and> dict_get (bulk_entries final_nicknames (sort_key named_monsters_sort [durga, kali])) ''kali'' = Some durga"
proof -
  have 1: "(''kali'', 99) \<in> set sample_overrides" by (simp add: sample_overrides_def)
  have 2: "distinct (dict_keys sample_overrides)" by (simp add: sample_overrides_def dict_keys_def)
  have 3: "dict_get (monster_no_na_to_named_monster (MonsterIndex [durga, kali] sample_overrides)) 99 = None"
    by code_simp
  have 4: "dict_get (bulk_entries final_nicknames (sort_key named_monsters_sort [durga, kali])) ''kali'' = Some durga"
    by code_simp
  from override_of_missing_monster_is_skipped [OF 1 2 3] 1 3 4 show ?thesis by simp
qed

subsection \<open>The query resolver\<close>

lemma decimal_not_space: "isdecimal_char c \<Longrightarrow> \<not> isspace_char c"
  by (auto simp: isdecimal_char_def isspace_char_def Let_def)

lemma decimal_is_digit: "isdecimal_char c \<Longrightarrow> isdigit_char c"
  by (simp add: isdecimal_char_def isdigit_char_def Let_def)

lemma decimal_lower: "isdecimal_char c \<Longrightarrow> lower_char c = c"
  by (auto simp: isdecimal_char_def lower_char_def Let_def)

lemma lower_decimal: "list_all isdecimal_char s \<Longrightarrow> lower s = s"
  by (induction s) (simp_all add: lower_def decimal_lower)

lemma strip_no_blank_ends:
  assumes "s \<noteq> []" "\<not> isspace_char (hd s)" "\<not> isspace_char (last s)"
  shows "strip s = s"
proof -
  from assms have "dropWhile isspace_char s = s" by (cases s) simp_all
  moreover from assms have "dropWhile isspace_char (rev s) = rev s"
    by (cases "rev s") (simp_all add: last_rev [symmetric] hd_rev)
  ultimately show ?thesis by (simp add: strip_def)
qed

lemma strip_decimal:
  assumes "s \<noteq> []" "list_all isdecimal_char s"
  shows "strip s = s"
proof (rule strip_no_blank_ends [OF assms(1)])
  from assms have "isdecimal_char (hd s)" by (cases s) simp_all
  then show "\<not> isspace_char (hd s)" by (rule decimal_not_space)
  from assms have "isdecimal_char (last s)" by (simp add: list_all_iff)
  then show "\<not> isspace_char (last s)" by (rule decimal_not_space)
qed

lemma int_of_digits_Inr: "int_of_digits s = Inr n \<Longrightarrow> s \<noteq> [] \<and> list_all isdecimal_char s"
  by (auto simp: int_of_digits_def split: if_splits)

lemma isdigit_decimal: "s \<noteq> [] \<Longrightarrow> list_all isdecimal_char s \<Longrightarrow> isdigit s"
  by (auto simp: isdigit_def list_all_iff decimal_is_digit)

text \<open>
  Claim C6. A query of decimal digits (which \<open>rmdiacritics\<close> leaves as it is) whose value
  is no key of the NA id map is answered by the triple with no monster, the reason
  \<open>Looks like a monster ID but was not found\<close> and no label: no later stage is reached.
\<close>

theorem find_monster_unknown_id:
  assumes "int_of_digits raw_query = Inr n"
    and "rmdiacritics ext raw_query = raw_query"
    and "dict_get (monster_no_na_to_named_monster idx) n = None"
  shows "find_monster ext idx raw_query =
           Inr (None, Some ''Looks like a monster ID but was not found'', None)"
proof -
  from int_of_digits_Inr [OF assms(1)] have ne: "raw_query \<noteq> []" and dec: "list_all isdecimal_char raw_query"
    by simp_all
  have norm: "strip (lower (rmdiacritics ext raw_query)) = raw_query"
    by (simp add: assms(2) lower_decimal [OF dec] strip_decimal [OF ne dec])
  show ?thesis
    by (simp add: find_monster_def norm isdigit_decimal [OF ne dec] assms(1,3))
qed

theorem find_monster_unknown_id_witness:
  "int_of_digits ''1234'' = Inr 1234
   \<and> dict_get (monster_no_na_to_named_monster sample_index) 1234 = None
   \<and> find_monster plain_externals sample_index ''1234''
       = Inr (None, Some ''Looks like a monster ID but was not found'', None)"
proof -
  have 1: "int_of_digits ''1234'' = Inr 1234" by code_simp
  have 2: "rmdiacritics plain_externals ''1234'' = ''1234''" by (simp add: plain_externals_def)
  have 3: "dict_get (monster_no_na_to_named_monster sample_index) 1234 = None" by code_simp
  from find_monster_unknown_id [OF 1 2 3] 1 3 show ?thesis by simp
qed

text \<open>
  Claim C7. Let \<open>query\<close> be the normalised query, not a string of digits. If it is no key of
  the nickname dictionary and is shorter than 2 with Japanese script, or shorter than 4
  without, the result is the triple with the reason for a query that is too short, and
  no scan is made. If it is a key of the nickname dictionary, the result is the entry,
  however short the query is.
\<close>

theorem find_monster_too_short:
  assumes "query = strip (lower (rmdiacritics ext raw_query))"
    and "\<not> isdigit query"
  shows "(dict_get (all_entries idx) query = None
            \<and> (length query < 2 \<and> containsJp ext query \<or> length query < 4 \<and> \<not> containsJp ext query)
          \<longrightarrow> find_monster ext idx raw_query =
                Inr (None,
                     Some (if containsJp ext query
                           then ''Japanese queries must be at least 2 characters''
                           else ''Your query must be at least 4 letters''),
                     None))
       \<and> (\<forall>m. dict_get (all_entries idx) query = Some m
            \<longrightarrow> find_monster ext idx raw_query = Inr (Some m, None, Some ''Exact nickname''))"
  using assms by (auto simp: find_monster_def Let_def)

theorem find_monster_too_short_witness:
  "find_monster plain_externals sample_index ''ace''
       = Inr (None, Some ''Your query must be at least 4 letters'', None)
   \<and> find_monster plain_externals sample_index ''dk'' = Inr (Some durga, None, Some ''Exact nickname'')"
proof -
  have 1: "''ace'' = strip (lower (rmdiacritics plain_externals ''ace''))" by code_simp
  have 2: "\<not> isdigit ''ace''" by code_simp
  have 3: "dict_get (all_entries sample_index) ''ace'' = None" by code_simp
  have 4: "''dk'' = strip (lower (rmdiacritics plain_externals ''dk''))" by code_simp
  have 5: "\<not> isdigit ''dk''" by code_simp
  have 6: "dict_get (all_entries sample_index) ''dk'' = Some durga" by code_simp
  have 7: "\<not> containsJp plain_externals ''ace''" by (simp add: plain_externals_def)
  from find_monster_too_short [OF 1 2, of sample_index] 3 7
  have a: "find_monster plain_externals sample_index ''ace''
       = Inr (None, Some ''Your query must be at least 4 letters'', None)" by simp
  from find_monster_too_short [OF 4 5, of sample_index] 6
  have b: "find_monster plain_externals sample_index ''dk'' = Inr (Some durga, None, Some ''Exact nickname'')"
    by simp
  from a b show ?thesis by simp
qed

text \<open>
  Claim C9 states that every query is answered by a triple. The resolver guards
  \<^verbatim>\<open>int(query)\<close> by \<^verbatim>\<open>query.isdigit()\<close>, which also holds for the superscript
  digits, characters that \<^verbatim>\<open>int\<close> rejects: for a query whose normalisation passes
  \<^verbatim>\<open>isdigit\<close> with a character that is no decimal digit, such as the superscript two
  (U+00B2), the resolver raises \<^verbatim>\<open>ValueError\<close>, whatever the index.
\<close>

theorem find_monster_raises_ValueError:
  assumes "isdigit (strip (lower (rmdiacritics ext raw_query)))"
    and "list_ex (\<lambda>c. \<not> isdecimal_char c) (strip (lower (rmdiacritics ext raw_query)))"
  shows "find_monster ext idx raw_query = Inl ValueError"
proof -
  from assms(2) have "int_of_digits (strip (lower (rmdiacritics ext raw_query))) = Inl ValueError"
    by (auto simp: int_of_digits_def list_ex_iff list_all_iff)
  with assms(1) show ?thesis by (simp add: find_monster_def)
qed

theorem find_monster_raises_ValueError_witness:
  "isdigit (strip (lower (rmdiacritics plain_externals [CHR 0xB2])))
   \<and> find_monster plain_externals sample_index [CHR 0xB2] = Inl ValueError"
proof -
  have 1: "isdigit (strip (lower (rmdiacritics plain_externals [CHR 0xB2])))" by code_simp
  have 2: "list_ex (\<lambda>c. \<not> isdecimal_char c) (strip (lower (rmdiacritics plain_externals [CHR 0xB2])))"
    by code_simp
  from find_monster_raises_ValueError [OF 1 2] 1 show ?thesis by simp
qed

text \<open>
  That is the only way to an exception. With a close-match search that returns some of
  the possibilities it was given, the resolver returns a triple of the stated shape for
  every query but those whose normalisation passes \<^verbatim>\<open>isdigit\<close> with a character that
  is no decimal digit.
\<close>

lemma returns_triple_simps:
  "returns_triple (Inr (Some m, None, Some l)) = (l \<noteq> [])"
  "returns_triple (Inr (None, Some s, None)) = (s \<noteq> [])"
  "returns_triple (Inl e) = False"
  by (simp_all add: returns_triple_def)

lemma return_best_triple: "matches \<noteq> [] \<Longrightarrow> returns_triple (return_best matches label) = (label \<noteq> [])"
  by (cases matches) (simp_all add: return_best_def pickBestMonster_def returns_triple_def)

lemma return_close_triple:
  assumes "k \<in> set (dict_keys d)"
  shows "returns_triple (return_close d k label) = (label \<noteq> [])"
proof -
  from assms have "map_of d k \<noteq> None" by (simp add: dict_keys_def map_of_eq_None_iff)
  then obtain m where "dict_get d k = Some m" by (auto simp: dict_get_def)
  then show ?thesis by (simp add: return_close_def returns_triple_def)
qed

lemma find_by_scan_triple:
  assumes close: "\<And>word possibilities n cutoff.
      set (get_close_matches ext word possibilities n cutoff) \<subseteq> set possibilities"
    and iter: "\<And>s. set (set_iteration ext s) = set s"
  shows "returns_triple (find_by_scan ext idx query)"
proof -
  have c: "returns_triple (return_close d k label)"
    if "get_close_matches ext query (dict_keys d) n cutoff = k # ks" "label \<noteq> []"
    for d k ks label n cutoff
  proof -
    from close [of query "dict_keys d" n cutoff] that(1) have "k \<in> set (dict_keys d)" by auto
    with that(2) show ?thesis by (simp add: return_close_triple)
  qed
  have ne: "set_iteration ext s \<noteq> []" if "s \<noteq> []" for s
  proof
    assume "set_iteration ext s = []"
    with iter [of s] have "set s = {}" by simp
    with that show False by simp
  qed
  show ?thesis
    unfolding find_by_scan_def Let_def
    by (auto simp: returns_triple_simps return_best_triple ne intro: c split: option.splits list.splits)
qed

lemma find_monster_triple_or_ValueError:
  assumes close: "\<And>word possibilities n cutoff.
      set (get_close_matches ext word possibilities n cutoff) \<subseteq> set possibilities"
    and iter: "\<And>s. set (set_iteration ext s) = set s"
  shows "returns_triple (find_monster ext idx raw_query)
       \<or> (find_monster ext idx raw_query = Inl ValueError
          \<and> isdigit (strip (lower (rmdiacritics ext raw_query)))
          \<and> list_ex (\<lambda>c. \<not> isdecimal_char c) (strip (lower (rmdiacritics ext raw_query))))"
proof -
  let ?q = "strip (lower (rmdiacritics ext raw_query))"
  show ?thesis
  proof (cases "isdigit ?q")
    case True
    show ?thesis
    proof (cases "list_all isdecimal_char ?q")
      case True
      with \<open>isdigit ?q\<close> obtain n where "int_of_digits ?q = Inr n"
        by (auto simp: int_of_digits_def isdigit_def)
      with \<open>isdigit ?q\<close> show ?thesis
        by (simp add: find_monster_def returns_triple_def split: option.splits)
    next
      case False
      then have "int_of_digits ?q = Inl ValueError" by (simp add: int_of_digits_def)
      with \<open>isdigit ?q\<close> False show ?thesis
        by (simp add: find_monster_def list_ex_iff list_all_iff)
    qed
  next
    case False
    then show ?thesis
      using find_by_scan_triple [OF close iter, of idx ?q]
      by (simp add: find_monster_def Let_def returns_triple_def split: option.splits)
  qed
qed

end
